theory Spec2Isabelle
  imports Main "HOL-Library.Char_ord" "HOL-Library.List_Lexorder" "HOL-Library.Sublist"
begin

section \<open>Python values and the built-ins the scoping tool calls\<close>

text \<open>
  A Python \<open>str\<close> is modelled as a \<open>string\<close> holding its UTF-8 bytes. The sources use two
  characters outside ASCII, the em dash U+2014 and the en dash U+2013, in choice labels and
  in the patterns matched against them; a substring test and a comparison of two strings on
  their UTF-8 bytes agree with the same operations on code points.
\<close>

abbreviation emdash :: string where
  "emdash \<equiv> [CHR 0xE2, CHR 0x80, CHR 0x94]"

abbreviation endash :: string where
  "endash \<equiv> [CHR 0xE2, CHR 0x80, CHR 0x93]"

text \<open>
  The values an answer can take: \<open>None\<close>, a \<open>bool\<close>, an \<open>int\<close>, a \<open>str\<close>, or a list of
  \<open>str\<close> (a multi-choice answer).
\<close>

datatype pyval = PNone | PBool bool | PInt int | PStr string | PList "string list"

datatype py_error = TypeError | EOFError

type_synonym store = "string \<rightharpoonup> pyval"

text \<open>\<open>d.get(k)\<close> and \<open>d.get(k, default)\<close>.\<close>

definition dict_get :: "store \<Rightarrow> string \<Rightarrow> pyval" where
  "dict_get d k = (case d k of None \<Rightarrow> PNone | Some v \<Rightarrow> v)"

definition dict_get_default :: "store \<Rightarrow> string \<Rightarrow> pyval \<Rightarrow> pyval" where
  "dict_get_default d k dflt = (case d k of None \<Rightarrow> dflt | Some v \<Rightarrow> v)"

text \<open>\<open>bool(v)\<close>: the truth value of an object.\<close>

fun py_truthy :: "pyval \<Rightarrow> bool" where
  "py_truthy PNone = False"
| "py_truthy (PBool b) = b"
| "py_truthy (PInt n) = (n \<noteq> 0)"
| "py_truthy (PStr s) = (s \<noteq> [])"
| "py_truthy (PList xs) = (xs \<noteq> [])"

text \<open>\<open>a in b\<close> on two strings: \<open>a\<close> occurs in \<open>b\<close> as a contiguous run.\<close>

primrec str_in :: "string \<Rightarrow> string \<Rightarrow> bool" where
  "str_in p [] = (p = [])"
| "str_in p (c # cs) = (prefix p (c # cs) \<or> str_in p cs)"

text \<open>
  \<open>x in v\<close> for a string \<open>x\<close>: membership in a list, substring of a string, and a
  \<open>TypeError\<close> on \<open>None\<close>, a \<open>bool\<close> or an \<open>int\<close>, which are not iterable.
\<close>

fun py_in :: "string \<Rightarrow> pyval \<Rightarrow> py_error + bool" where
  "py_in x (PList xs) = Inr (x \<in> set xs)"
| "py_in x (PStr s) = Inr (str_in x s)"
| "py_in x PNone = Inl TypeError"
| "py_in x (PBool b) = Inl TypeError"
| "py_in x (PInt n) = Inl TypeError"

text \<open>
  \<open>str.lower()\<close> and \<open>str.strip()\<close>, on ASCII: the letters \<open>A\<close> to \<open>Z\<close> are lowered and
  every other byte is kept; the white space stripped is the ASCII white space of
  \<open>str.isspace\<close> (tab, line feed, vertical tab, form feed, carriage return, the four
  separators 0x1C to 0x1F, and the space).
\<close>

definition lower_char :: "char \<Rightarrow> char" where
  "lower_char c =
     (case map_of (zip ''ABCDEFGHIJKLMNOPQRSTUVWXYZ'' ''abcdefghijklmnopqrstuvwxyz'') c of
        None \<Rightarrow> c | Some d \<Rightarrow> d)"

definition lower :: "string \<Rightarrow> string" where
  "lower s = map lower_char s"

definition is_space :: "char \<Rightarrow> bool" where
  "is_space c \<longleftrightarrow> c \<in> set [CHR 0x09, CHR 0x0A, CHR 0x0B, CHR 0x0C, CHR 0x0D,
                            CHR 0x1C, CHR 0x1D, CHR 0x1E, CHR 0x1F, CHR 0x20]"

definition strip :: "string \<Rightarrow> string" where
  "strip s = rev (dropWhile is_space (rev (dropWhile is_space s)))"

text \<open>\<open>s.split(sep)\<close> for a one-character separator: never empty, \<open>''''\<close> gives \<open>['''']\<close>.\<close>

fun split :: "char \<Rightarrow> string \<Rightarrow> string list" where
  "split sep [] = [[]]"
| "split sep (c # cs) =
     (if c = sep then [] # split sep cs
      else (case split sep cs of t # ts \<Rightarrow> (c # t) # ts | [] \<Rightarrow> [[c]]))"

text \<open>\<open>sep.join(xs)\<close>.\<close>

fun join :: "string \<Rightarrow> string list \<Rightarrow> string" where
  "join sep [] = []"
| "join sep [x] = x"
| "join sep (x # y # ys) = x @ sep @ join sep (y # ys)"

text \<open>\<open>str(n)\<close> for an integer: the decimal digits, with a minus sign below zero.\<close>

definition digit_char :: "nat \<Rightarrow> char" where
  "digit_char d = ''0123456789'' ! (d mod 10)"

fun str_nat :: "nat \<Rightarrow> string" where
  "str_nat n = (if n < 10 then [digit_char n] else str_nat (n div 10) @ [digit_char (n mod 10)])"

declare str_nat.simps [simp del]

definition str_int :: "int \<Rightarrow> string" where
  "str_int i = (if i < 0 then CHR ''-'' # str_nat (nat (- i)) else str_nat (nat i))"

text \<open>
  \<open>repr(s)\<close> of a string, as it appears inside \<open>str(list)\<close>: single quotes unless the
  string holds a single quote and no double quote; the quote in use and the backslash are
  escaped, tab, line feed and carriage return are written \<open>\t\<close>, \<open>\n\<close>, \<open>\r\<close>, the other
  ASCII control characters as \<open>\xhh\<close>. Bytes of characters outside ASCII are kept, as
  \<open>repr\<close> keeps every printable character.
\<close>

definition hex_char :: "nat \<Rightarrow> char" where
  "hex_char d = ''0123456789abcdef'' ! (d mod 16)"

definition repr_char :: "char \<Rightarrow> char \<Rightarrow> string" where
  "repr_char q c =
     (if c = q \<or> c = CHR 0x5C then [CHR 0x5C, c]
      else if c = CHR 0x09 then [CHR 0x5C, CHR ''t'']
      else if c = CHR 0x0A then [CHR 0x5C, CHR ''n'']
      else if c = CHR 0x0D then [CHR 0x5C, CHR ''r'']
      else if (of_char c :: nat) < 32 \<or> c = CHR 0x7F
        then [CHR 0x5C, CHR ''x'', hex_char (of_char c div 16), hex_char (of_char c mod 16)]
      else [c])"

definition repr_str :: "string \<Rightarrow> string" where
  "repr_str s =
     (let q = (if CHR 0x27 \<in> set s \<and> CHR 0x22 \<notin> set s then CHR 0x22 else CHR 0x27)
      in [q] @ concat (map (repr_char q) s) @ [q])"

text \<open>\<open>str(v)\<close>.\<close>

fun py_str :: "pyval \<Rightarrow> string" where
  "py_str PNone = ''None''"
| "py_str (PBool b) = (if b then ''True'' else ''False'')"
| "py_str (PInt n) = str_int n"
| "py_str (PStr s) = s"
| "py_str (PList xs) = ''['' @ join '', '' (map repr_str xs) @ '']''"

section \<open>The scoring engine (\<open>utils/scoring.py\<close>)\<close>

text \<open>
  \<open>ScopeScorer.__init__\<close> keeps the responses of the modules (per module, a dictionary of
  answers) and flattens them into one dictionary: the modules are visited in order and
  \<open>dict.update\<close> lets a later module override an earlier one; a module entry that is not a
  dictionary is passed over.
\<close>

datatype module_data = Dict store | Other pyval

record ScopeScorer =
  r :: "(string \<times> module_data) list"
  flat :: store

definition flatten :: "store \<Rightarrow> module_data \<Rightarrow> store" where
  "flatten fl md = (case md of Dict d \<Rightarrow> fl ++ d | Other v \<Rightarrow> fl)"

definition ScopeScorer_init :: "(string \<times> module_data) list \<Rightarrow> ScopeScorer" where
  "ScopeScorer_init responses =
     \<lparr> r = responses, flat = foldl flatten Map.empty (map snd responses) \<rparr>"

subsection \<open>CUI / FCI determination and the CMMC level\<close>

definition cui_in_scope :: "ScopeScorer \<Rightarrow> py_error + bool" where
  "cui_in_scope self =
     (let handles_gov = (dict_get (flat self) ''df_01'' = PBool True);
          has_dfars = (dict_get (flat self) ''df_02'' = PBool True);
          cui_cats = dict_get_default (flat self) ''df_03'' (PList [])
      in case (if py_truthy cui_cats
               then (case py_in ''I am not sure'' cui_cats of
                       Inl e \<Rightarrow> Inl e | Inr b \<Rightarrow> Inr (\<not> b))
               else Inr False) of
           Inl e \<Rightarrow> Inl e
         | Inr has_cui_cats \<Rightarrow> Inr (handles_gov \<and> (has_dfars \<or> has_cui_cats)))"

definition fci_in_scope :: "ScopeScorer \<Rightarrow> bool" where
  "fci_in_scope self \<longleftrightarrow>
     dict_get (flat self) ''df_01'' = PBool True \<or> dict_get (flat self) ''df_09'' = PBool True"

definition cmmc_level :: "bool \<Rightarrow> bool \<Rightarrow> string" where
  "cmmc_level cui fci =
     (if cui then ''Level 2''
      else if fci then ''Level 1''
      else ''Not Required (verify contract requirements)'')"

subsection \<open>Gaps\<close>

record gap_record =
  nist_control :: string
  title :: string
  detail :: string
  priority :: string

text \<open>The local function \<open>gap\<close> of \<open>_identify_gaps\<close>: it appends one record to \<open>gaps\<close>.\<close>

definition gap :: "string \<Rightarrow> string \<Rightarrow> string \<Rightarrow> string \<Rightarrow> gap_record list \<Rightarrow> gap_record list" where
  "gap control ttl det prio gaps =
     gaps @ [\<lparr> nist_control = control, title = ttl, detail = det, priority = prio \<rparr>]"

text \<open>
  The rules of \<open>_identify_gaps\<close>, one definition for each \<open>if\<close> statement, in the order
  and under the comment of the source.
\<close>

definition gaps_mfa :: "ScopeScorer \<Rightarrow> gap_record list \<Rightarrow> gap_record list" where
  "gaps_mfa self gaps =
     (let mfa = dict_get_default (flat self) ''ac_02'' (PStr [])
      in if str_in (''No '' @ emdash @ '' password'') (py_str mfa) \<or> str_in ''Partial'' (py_str mfa)
         then gap ''IA.3.083'' ''Multi-Factor Authentication Not Fully Implemented''
                (''MFA is required for all access to CUI systems under NIST 800-171 Rev 3 IA.3.083. '' @
                 ''Password-only authentication is not compliant.'')
                ''HIGH'' gaps
         else gaps)"

definition gaps_remote_access :: "ScopeScorer \<Rightarrow> gap_record list \<Rightarrow> gap_record list" where
  "gaps_remote_access self gaps =
     (let remote = dict_get_default (flat self) ''ac_05'' (PStr [])
      in if str_in ''no MFA'' (py_str remote) \<or> str_in ''direct RDP'' (py_str remote)
         then gap ''AC.1.001 / IA.3.083'' ''Remote Access Lacks MFA or VPN Protection''
                (''Remote access to CUI systems must use MFA and encrypted channels (VPN). '' @
                 ''Direct RDP/SSH without VPN is a critical exposure.'')
                ''HIGH'' gaps
         else gaps)"

definition gaps_encryption_at_rest :: "ScopeScorer \<Rightarrow> gap_record list \<Rightarrow> gap_record list" where
  "gaps_encryption_at_rest self gaps =
     (let enc_rest = dict_get_default (flat self) ''df_06'' (PStr [])
      in if str_in ''No'' (py_str enc_rest) \<or> str_in ''not sure'' (lower (py_str enc_rest))
         then gap ''SC.3.177'' ''CUI Not Encrypted at Rest''
                (''NIST SC.3.177 requires CUI to be encrypted at rest using FIPS 140-2 validated '' @
                 ''cryptographic modules. Unencrypted CUI storage is a critical gap.'')
                ''HIGH'' gaps
         else gaps)"

definition gaps_encryption_in_transit :: "ScopeScorer \<Rightarrow> gap_record list \<Rightarrow> gap_record list" where
  "gaps_encryption_in_transit self gaps =
     (let enc_transit = dict_get_default (flat self) ''df_07'' (PStr [])
      in if str_in ''plaintext'' (lower (py_str enc_transit)) \<or>
            str_in ''not sure'' (lower (py_str enc_transit))
         then gap ''SC.3.177'' ''CUI Not Encrypted in Transit''
                (''CUI transmitted over networks must be encrypted (TLS 1.2+ or equivalent). '' @
                 ''Plaintext transmission is a critical compliance failure.'')
                ''HIGH'' gaps
         else gaps)"

definition gaps_network_separation :: "ScopeScorer \<Rightarrow> gap_record list \<Rightarrow> gap_record list" where
  "gaps_network_separation self gaps =
     (let boundary = dict_get_default (flat self) ''bd_02'' (PStr [])
      in if str_in (''No '' @ emdash @ '' all systems share'') (py_str boundary)
         then gap ''SC.3.180'' ''No Network Segmentation for CUI Systems''
                (''CUI systems should be on an isolated network segment or enclave. '' @
                 ''Flat networks where all systems share the same segment expand CMMC scope significantly.'')
                ''HIGH'' gaps
         else gaps)"

definition gaps_shared_services :: "ScopeScorer \<Rightarrow> gap_record list \<Rightarrow> gap_record list" where
  "gaps_shared_services self gaps =
     (if dict_get (flat self) ''bd_06'' = PBool True
      then (let shared = dict_get_default (flat self) ''bd_06a'' (PList [])
            in if py_truthy shared \<and> \<not> str_in ''None'' (py_str shared)
               then gap ''SC.3.180 / AC.1.001''
                      ''Shared Services Span CUI and Non-CUI Environments''
                      (''Shared services ('' @
                       (case shared of PList xs \<Rightarrow> join '', '' xs | _ \<Rightarrow> py_str shared) @ '') '' @
                       ''that span both CUI and non-CUI environments bring additional systems into CMMC scope.'')
                      ''HIGH'' gaps
               else gaps)
      else gaps)"

definition gaps_ssp_missing :: "ScopeScorer \<Rightarrow> gap_record list \<Rightarrow> gap_record list" where
  "gaps_ssp_missing self gaps =
     (if dict_get (flat self) ''bd_07'' = PBool False
      then gap ''CM.2.061'' ''No System Security Plan (SSP)''
             (''A written SSP documenting your system boundary, security controls, and NIST 800-171 '' @
              ''implementation is required for CMMC Level 2 assessment.'')
             ''HIGH'' gaps
      else gaps)"

definition gaps_sprs_not_submitted :: "ScopeScorer \<Rightarrow> gap_record list \<Rightarrow> gap_record list" where
  "gaps_sprs_not_submitted self gaps =
     (if dict_get (flat self) ''bd_08'' = PBool False
      then gap ''CM.2.061'' ''SPRS Score Not Submitted''
             (''DoD contractors must submit a NIST SP 800-171 self-assessment score to SPRS. '' @
              ''Failure to do so may violate contract requirements.'')
             ''MEDIUM'' gaps
      else gaps)"

definition gaps_logging :: "ScopeScorer \<Rightarrow> gap_record list \<Rightarrow> gap_record list" where
  "gaps_logging self gaps =
     (let logging = dict_get_default (flat self) ''ac_07'' (PStr [])
      in if str_in ''No logging'' (py_str logging)
         then gap ''AU.2.041'' ''No Audit Logging on CUI Systems''
                (''NIST AU.2.041 requires audit records for user activities on CUI systems. '' @
                 ''No logging means you cannot detect or investigate security incidents.'')
                ''HIGH'' gaps
         else gaps)"

definition gaps_privileged :: "ScopeScorer \<Rightarrow> gap_record list \<Rightarrow> gap_record list" where
  "gaps_privileged self gaps =
     (if dict_get (flat self) ''ac_03'' = PBool False
      then gap ''AC.1.002'' ''No Separation of Privileged and Standard Accounts''
             (''Admin/privileged accounts should be separate from standard user accounts '' @
              ''to limit the blast radius of a compromised credential.'')
             ''MEDIUM'' gaps
      else gaps)"

definition gaps_usb_control :: "ScopeScorer \<Rightarrow> gap_record list \<Rightarrow> gap_record list" where
  "gaps_usb_control self gaps =
     (let usb = dict_get_default (flat self) ''ac_08'' (PStr [])
      in if str_in ''unrestricted'' (lower (py_str usb)) \<or> str_in (''No '' @ emdash) (py_str usb)
         then gap ''AC.2.006 / MP.2.119'' ''Removable Media Not Controlled''
                (''USB and removable media use on CUI systems must be restricted and controlled. '' @
                 ''Unrestricted USB access is a common data exfiltration vector.'')
                ''MEDIUM'' gaps
         else gaps)"

definition gaps_byod :: "ScopeScorer \<Rightarrow> gap_record list \<Rightarrow> gap_record list" where
  "gaps_byod self gaps =
     (if dict_get (flat self) ''si_04'' = PBool True
      then gap ''AC.1.001 / MP.2.119''
             ''Personal Devices (BYOD) Used for Work Activities''
             (''Personal devices accessing company email or systems may bring CUI into an uncontrolled '' @
              ''environment. BYOD policies and MDM controls are required.'')
             ''MEDIUM'' gaps
      else gaps)"

definition gaps_awareness_training :: "ScopeScorer \<Rightarrow> gap_record list \<Rightarrow> gap_record list" where
  "gaps_awareness_training self gaps =
     (let training = dict_get_default (flat self) ''ac_09'' (PStr [])
      in if str_in ''No formal'' (py_str training)
         then gap ''AT.2.056'' ''No Formal Cybersecurity Awareness Training Program''
                (''NIST AT.2.056 requires all users with access to CUI systems to receive '' @
                 ''periodic security awareness training.'')
                ''MEDIUM'' gaps
         else gaps)"

definition gaps_subcontractors :: "ScopeScorer \<Rightarrow> gap_record list \<Rightarrow> gap_record list" where
  "gaps_subcontractors self gaps =
     (let sub = dict_get_default (flat self) ''df_08a'' (PStr [])
      in if py_truthy sub \<and>
            (str_in ''no known'' (lower (py_str sub)) \<or> str_in ''not sure'' (lower (py_str sub)))
         then gap ''AC.2.006'' ''Subcontractors Handling CUI Lack CMMC Certification''
                (''Subcontractors who receive CUI may be required to obtain their own CMMC certification '' @
                 ''under the flow-down requirements of DFARS 252.204-7021.'')
                ''HIGH'' gaps
         else gaps)"

definition identify_gaps :: "ScopeScorer \<Rightarrow> gap_record list" where
  "identify_gaps self =
     (let gaps = [];
          gaps = gaps_mfa self gaps;
          gaps = gaps_remote_access self gaps;
          gaps = gaps_encryption_at_rest self gaps;
          gaps = gaps_encryption_in_transit self gaps;
          gaps = gaps_network_separation self gaps;
          gaps = gaps_shared_services self gaps;
          gaps = gaps_ssp_missing self gaps;
          gaps = gaps_sprs_not_submitted self gaps;
          gaps = gaps_logging self gaps;
          gaps = gaps_privileged self gaps;
          gaps = gaps_usb_control self gaps;
          gaps = gaps_byod self gaps;
          gaps = gaps_awareness_training self gaps;
          gaps = gaps_subcontractors self gaps
      in gaps)"

subsection \<open>Enclave recommendation, estimated systems in scope, scope reduction\<close>

definition enclave_recommended :: "ScopeScorer \<Rightarrow> py_error + bool" where
  "enclave_recommended self =
     (case cui_in_scope self of
        Inl e \<Rightarrow> Inl e
      | Inr cui \<Rightarrow>
          (let no_enclave = (dict_get (flat self) ''bd_03'' = PBool False \<or>
                             dict_get (flat self) ''bd_03'' = PNone);
               not_all = (dict_get (flat self) ''bd_01'' = PBool False);
               willing = (dict_get (flat self) ''bd_04'' \<noteq> PBool False)
           in Inr (cui \<and> no_enclave \<and> (not_all \<or> willing))))"

definition total_map :: "(string \<times> int) list" where
  "total_map =
     [(''1'' @ endash @ ''10'', 10), (''11'' @ endash @ ''50'', 50), (''51'' @ endash @ ''200'', 200),
      (''201'' @ endash @ ''500'', 500), (''500+'', 999)]"

text \<open>
  \<open>total_map.get(key, 10)\<close>: a list is unhashable and raises \<open>TypeError\<close>; any other key
  that is not one of the five strings gives the default.
\<close>

definition total_map_get :: "pyval \<Rightarrow> int \<Rightarrow> py_error + int" where
  "total_map_get key dflt =
     (case key of
        PList xs \<Rightarrow> Inl TypeError
      | PStr s \<Rightarrow> Inr (case map_of total_map s of None \<Rightarrow> dflt | Some n \<Rightarrow> n)
      | _ \<Rightarrow> Inr dflt)"

definition estimate_systems_in_scope :: "ScopeScorer \<Rightarrow> py_error + string" where
  "estimate_systems_in_scope self =
     (case total_map_get (dict_get_default (flat self) ''si_01'' (PStr (''1'' @ endash @ ''10''))) 10 of
        Inl e \<Rightarrow> Inl e
      | Inr total' \<Rightarrow>
          if dict_get (flat self) ''bd_01'' = PBool True then Inr (str_int total')
          else (let boundary = dict_get_default (flat self) ''bd_02'' (PStr [])
                in if str_in ''physically separate'' (py_str boundary) \<or>
                      str_in ''logically separated'' (py_str boundary)
                   then Inr (''~'' @ str_int (max 1 (total' div 5)) @ '' (estimated enclave systems only)'')
                   else if str_in ''Partially'' (py_str boundary)
                   then Inr (''~'' @ str_int (max 1 (total' div 2)) @ '' (estimated)'')
                   else Inr (str_int total')))"

definition scope_reduction_possible :: "ScopeScorer \<Rightarrow> bool" where
  "scope_reduction_possible self \<longleftrightarrow>
     dict_get (flat self) ''bd_01'' = PBool False \<and>
     (dict_get (flat self) ''bd_01a'' = PBool True \<or> dict_get (flat self) ''bd_04'' = PBool True)"

subsection \<open>NIST control gap summary\<close>

text \<open>
  \<open>controls\<close> is a Python set, filled token by token in the two nested loops; \<open>sorted\<close>
  returns its elements in increasing order.
\<close>

definition add_controls :: "gap_record \<Rightarrow> string set \<Rightarrow> string set" where
  "add_controls g controls =
     fold (\<lambda>c controls. insert (strip c) controls) (split CHR ''/'' (nist_control g)) controls"

definition nist_control_gaps :: "gap_record list \<Rightarrow> string list" where
  "nist_control_gaps gaps = sorted_list_of_set (fold add_controls gaps {})"

subsection \<open>\<open>calculate\<close>\<close>

record derived_result =
  res_cui_in_scope :: bool
  res_fci_in_scope :: bool
  res_cmmc_level_required :: string
  res_enclave_recommended :: bool
  res_systems_in_scope :: string
  res_compliance_gaps :: "gap_record list"
  res_gap_count :: nat
  res_high_priority_gaps :: "gap_record list"
  res_nist_control_gaps :: "string list"
  res_scope_reduction_possible :: bool

text \<open>
  \<open>calculate\<close> returns the dictionary of results, or the exception one of the methods
  raised, together with the scorer object as the call leaves it.
\<close>

definition calculate :: "ScopeScorer \<Rightarrow> (py_error + derived_result) \<times> ScopeScorer" where
  "calculate self =
     (case cui_in_scope self of
        Inl e \<Rightarrow> (Inl e, self)
      | Inr cui \<Rightarrow>
          (let fci = fci_in_scope self;
               level = cmmc_level cui fci;
               gaps = identify_gaps self
           in case enclave_recommended self of
                Inl e \<Rightarrow> (Inl e, self)
              | Inr enclave_rec \<Rightarrow>
                  (case estimate_systems_in_scope self of
                     Inl e \<Rightarrow> (Inl e, self)
                   | Inr scope_sys \<Rightarrow>
                       (Inr \<lparr> res_cui_in_scope = cui,
                              res_fci_in_scope = fci,
                              res_cmmc_level_required = level,
                              res_enclave_recommended = enclave_rec,
                              res_systems_in_scope = scope_sys,
                              res_compliance_gaps = gaps,
                              res_gap_count = length gaps,
                              res_high_priority_gaps = filter (\<lambda>g. priority g = ''HIGH'') gaps,
                              res_nist_control_gaps = nist_control_gaps gaps,
                              res_scope_reduction_possible = scope_reduction_possible self \<rparr>,
                        self))))"

section \<open>The question engine (\<open>utils/question_engine.py\<close>)\<close>

datatype QuestionType = YES_NO | CHOICE | MULTI_CHOICE | TEXT | NUMBER

text \<open>
  The dataclass \<open>Question\<close>; its fields \<open>id\<close> and \<open>text\<close> are \<open>qid\<close> and \<open>qtext\<close> here.
  \<open>depends_on\<close> is \<open>None\<close> or the pair \<open>(question_id, expected_value)\<close>.
\<close>

record Question =
  qid :: string
  qtext :: string
  qtype :: QuestionType
  choices :: "string list"
  help_text :: "string option"
  nist_controls :: "string list"
  depends_on :: "(string \<times> pyval) option"
  is_critical :: bool
  gap_flag :: bool

subsection \<open>Helpers\<close>

definition to_bool :: "pyval \<Rightarrow> bool option" where
  "to_bool v =
     (case v of
        PBool b \<Rightarrow> Some b
      | PStr s \<Rightarrow> Some (lower s \<in> set [''y'', ''yes'', ''true'', ''1''])
      | _ \<Rightarrow> None)"

text \<open>
  \<open>a == b\<close> on answers: a \<open>bool\<close> equals the integer 0 or 1 it stands for; values of
  different types are otherwise unequal.
\<close>

fun py_eq :: "pyval \<Rightarrow> pyval \<Rightarrow> bool" where
  "py_eq (PBool a) (PInt n) = ((if a then 1 else 0) = n)"
| "py_eq (PInt n) (PBool a) = (n = (if a then 1 else 0))"
| "py_eq a b = (a = b)"

text \<open>
  \<open>int(s)\<close> on ASCII input: white space around, an optional sign, then decimal digits in
  which single underscores may separate digits. \<open>None\<close> stands for the \<open>ValueError\<close>, which
  every caller catches.
\<close>

definition is_digit :: "char \<Rightarrow> bool" where
  "is_digit c \<longleftrightarrow> c \<in> set ''0123456789''"

definition digit_val :: "char \<Rightarrow> int" where
  "digit_val c =
     (case map_of (zip ''0123456789'' [0, 1, 2, 3, 4, 5, 6, 7, 8, 9]) c of
        None \<Rightarrow> 0 | Some d \<Rightarrow> d)"

fun int_body :: "string \<Rightarrow> bool" where
  "int_body [] = False"
| "int_body [c] = is_digit c"
| "int_body (c # d # cs) =
     (is_digit c \<and> (if d = CHR ''_'' then int_body cs else int_body (d # cs)))"

definition int_value :: "string \<Rightarrow> int" where
  "int_value body = foldl (\<lambda>acc c. 10 * acc + digit_val c) 0 (filter is_digit body)"

definition py_int :: "string \<Rightarrow> int option" where
  "py_int s =
     (case strip s of
        [] \<Rightarrow> None
      | c # cs \<Rightarrow>
          if c = CHR ''-'' then (if int_body cs then Some (- int_value cs) else None)
          else if c = CHR ''+'' then (if int_body cs then Some (int_value cs) else None)
          else (if int_body (c # cs) then Some (int_value (c # cs)) else None))"

subsection \<open>Answer collection\<close>

text \<open>
  The terminal is the list of the lines still to be read: \<open>input()\<close> takes the first one,
  and raises \<open>EOFError\<close> when none is left. Each prompt loop reads until a line is
  accepted, so it is a recursion over the lines.
\<close>

fun ask_yes_no :: "string list \<Rightarrow> py_error + (bool \<times> string list)" where
  "ask_yes_no [] = Inl EOFError"
| "ask_yes_no (line # rest) =
     (let ans = lower (strip line)
      in if ans \<in> set [''y'', ''yes''] then Inr (True, rest)
         else if ans \<in> set [''n'', ''no''] then Inr (False, rest)
         else ask_yes_no rest)"

fun ask_choice :: "string list \<Rightarrow> string list \<Rightarrow> py_error + (string \<times> string list)" where
  "ask_choice chs [] = Inl EOFError"
| "ask_choice chs (line # rest) =
     (let ans = strip line
      in case py_int ans of
           None \<Rightarrow> ask_choice chs rest
         | Some n \<Rightarrow>
             (let idx = n - 1
              in if 0 \<le> idx \<and> idx < int (length chs) then Inr (chs ! nat idx, rest)
                 else ask_choice chs rest))"

fun ask_multi_choice :: "string list \<Rightarrow> string list \<Rightarrow> py_error + (string list \<times> string list)" where
  "ask_multi_choice chs [] = Inl EOFError"
| "ask_multi_choice chs (line # rest) =
     (let ans = strip line
      in if lower ans = ''all'' then Inr (chs, rest)
         else (case those (map (\<lambda>x. py_int (strip x)) (split CHR '','' ans)) of
                 None \<Rightarrow> ask_multi_choice chs rest
               | Some ns \<Rightarrow>
                   (let indices = map (\<lambda>n. n - 1) ns;
                        selected = map (\<lambda>i. chs ! nat i)
                                     (filter (\<lambda>i. 0 \<le> i \<and> i < int (length chs)) indices)
                    in if selected \<noteq> [] then Inr (selected, rest)
                       else ask_multi_choice chs rest)))"

fun ask_number :: "string list \<Rightarrow> py_error + (int \<times> string list)" where
  "ask_number [] = Inl EOFError"
| "ask_number (line # rest) =
     (case py_int (strip line) of
        None \<Rightarrow> ask_number rest
      | Some n \<Rightarrow> Inr (n, rest))"

definition ask_text :: "string list \<Rightarrow> py_error + (pyval \<times> string list)" where
  "ask_text lines =
     (case lines of
        [] \<Rightarrow> Inl EOFError
      | line # rest \<Rightarrow> (let val = strip line in Inr (if val \<noteq> [] then PStr val else PNone, rest)))"

definition collect_answer :: "Question \<Rightarrow> string list \<Rightarrow> py_error + (pyval \<times> string list)" where
  "collect_answer q lines =
     (case qtype q of
        YES_NO \<Rightarrow> map_sum id (\<lambda>(b, rest). (PBool b, rest)) (ask_yes_no lines)
      | CHOICE \<Rightarrow> map_sum id (\<lambda>(s, rest). (PStr s, rest)) (ask_choice (choices q) lines)
      | MULTI_CHOICE \<Rightarrow> map_sum id (\<lambda>(xs, rest). (PList xs, rest)) (ask_multi_choice (choices q) lines)
      | TEXT \<Rightarrow> ask_text lines
      | NUMBER \<Rightarrow> map_sum id (\<lambda>(n, rest). (PInt n, rest)) (ask_number lines))"

subsection \<open>\<open>run\<close>\<close>

text \<open>
  The dependency check at the head of the loop body. \<open>matches_expected\<close> is its
  comparison: when \<open>expected\<close> is a \<open>bool\<close>, \<open>_to_bool(dep_answer)\<close> has to equal it
  (and \<open>None\<close>, what \<open>_to_bool\<close> returns for a value it does not normalise, equals no
  \<open>bool\<close>); otherwise \<open>dep_answer\<close> itself has to equal it. \<open>dependency_met\<close> is \<open>True\<close>
  when the question is to be presented, \<open>False\<close> when the loop continues with the next
  question.
\<close>

definition matches_expected :: "pyval \<Rightarrow> pyval \<Rightarrow> bool" where
  "matches_expected dep_answer expected =
     (case expected of
        PBool b \<Rightarrow> to_bool dep_answer = Some b
      | _ \<Rightarrow> py_eq dep_answer expected)"

definition dependency_met :: "store \<Rightarrow> Question \<Rightarrow> bool" where
  "dependency_met ans q =
     (case depends_on q of
        None \<Rightarrow> True
      | Some (dep_id, expected) \<Rightarrow> matches_expected (dict_get ans dep_id) expected)"

text \<open>
  What \<open>_print_question\<close> writes is kept as one event for each question it prints: the id
  of the question and the number shown in its heading \<open>Q<num>:\<close>.
\<close>

datatype event = Shown string nat

fun ev_id :: "event \<Rightarrow> string" where
  "ev_id (Shown i n) = i"

fun ev_num :: "event \<Rightarrow> nat" where
  "ev_num (Shown i n) = n"

record run_state =
  answers :: store
  shown :: nat
  stdin :: "string list"
  stdout :: "event list"

fun run_loop :: "Question list \<Rightarrow> run_state \<Rightarrow> py_error + run_state" where
  "run_loop [] st = Inr st"
| "run_loop (q # qs) st =
     (if \<not> dependency_met (answers st) q then run_loop qs st
      else (case collect_answer q (stdin st) of
              Inl e \<Rightarrow> Inl e
            | Inr (answer, rest) \<Rightarrow>
                run_loop qs \<lparr> answers = (answers st)(qid q \<mapsto> answer),
                              shown = shown st + 1,
                              stdin = rest,
                              stdout = stdout st @ [Shown (qid q) (shown st + 1)] \<rparr>))"

text \<open>\<open>QuestionEngine(questions).run()\<close>: the answers start empty and the count at 0.\<close>

definition run :: "Question list \<Rightarrow> string list \<Rightarrow> py_error + run_state" where
  "run questions lines =
     run_loop questions \<lparr> answers = Map.empty, shown = 0, stdin = lines, stdout = [] \<rparr>"

section \<open>Questions of the catalog (\<open>questions/*.py\<close>)\<close>


definition CUI_CATEGORIES :: "string list" where
  "CUI_CATEGORIES =
     [''Acquisition & Procurement (e.g., contract data, bid information)'',
      ''Defense & Military (e.g., technical specs, weapons system data)'',
      ''Export Controlled (ITAR / EAR controlled technical data)'',
      ''Financial (e.g., cost/pricing data, budget information)'',
      ''Intelligence (e.g., threat assessments, SIGINT products)'',
      ''Law Enforcement Sensitive'',
      ''Privacy / Personally Identifiable Information (PII)'',
      ''Proprietary Business Information'',
      ''Research & Development (pre-decisional R&D data)'',
      ''Other CUI (specify in report)'',
      ''I am not sure '' @ emdash @ '' need help identifying'']"

definition df_01 :: Question where
  "df_01 =
     \<lparr> qid = ''df_01'',
       qtext = ''Does your organization receive, create, process, store, or transmit'' @ [CHR 0x0A] @ ''  any information on behalf of the U.S. federal government?'',
       qtype = YES_NO,
       choices = [],
       help_text = Some (''Answer YES if you perform work under any federal contract, grant, or cooperative agreement that involves government information.''),
       nist_controls = [''AC.1.001''],
       depends_on = None,
       is_critical = True,
       gap_flag = False \<rparr>"

definition df_02 :: Question where
  "df_02 =
     \<lparr> qid = ''df_02'',
       qtext = ''Have you received a DD Form 254 (Contract Security Classification'' @ [CHR 0x0A] @ ''  Specification) or any contract clause referencing DFARS 252.204-7012'' @ [CHR 0x0A] @ ''  (Safeguarding Covered Defense Information)?'',
       qtype = YES_NO,
       choices = [],
       help_text = Some (''DFARS 252.204-7012 is the primary clause triggering CMMC requirements. A DD Form 254 indicates classified or sensitive work.''),
       nist_controls = [''AC.1.001''],
       depends_on = Some (''df_01'', PBool True),
       is_critical = True,
       gap_flag = False \<rparr>"

definition df_03 :: Question where
  "df_03 =
     \<lparr> qid = ''df_03'',
       qtext = ''What type(s) of government information does your organization handle? (Select all that apply)'',
       qtype = MULTI_CHOICE,
       choices = CUI_CATEGORIES,
       help_text = Some (''Select every category that applies. If unsure, select the last option.'' @ [CHR 0x0A] @ ''  The CUI Registry (archives.gov/cui) has the full category list.''),
       nist_controls = [''MP.2.119''],
       depends_on = Some (''df_01'', PBool True),
       is_critical = False,
       gap_flag = False \<rparr>"

definition bd_01 :: Question where
  "bd_01 =
     \<lparr> qid = ''bd_01'',
       qtext = ''Is your entire IT environment (all systems) used for DoD contract work?'',
       qtype = YES_NO,
       choices = [],
       help_text = Some (''If YES, your entire environment is likely in scope.'' @ [CHR 0x0A] @ ''  If NO, you may be able to define a narrower assessment boundary.''),
       nist_controls = [''SC.3.180''],
       depends_on = None,
       is_critical = True,
       gap_flag = False \<rparr>"

definition bd_01a :: Question where
  "bd_01a =
     \<lparr> qid = ''bd_01a'',
       qtext = ''Can you clearly identify which specific systems handle CUI/FCI vs. those that do not?'',
       qtype = YES_NO,
       choices = [],
       help_text = Some (''If you can separate systems that touch CUI/FCI from those that don'' @ [CHR 0x27] @ ''t, you can limit your CMMC scope to only the CUI-handling systems.''),
       nist_controls = [''CM.2.062''],
       depends_on = Some (''bd_01'', PBool False),
       is_critical = False,
       gap_flag = False \<rparr>"

definition bd_02 :: Question where
  "bd_02 =
     \<lparr> qid = ''bd_02'',
       qtext = ''Are CUI-handling systems physically or logically separated from non-CUI systems?'',
       qtype = CHOICE,
       choices = [''Yes '' @ emdash @ '' physically separate (different hardware, no network connection)'',
                  ''Yes '' @ emdash @ '' logically separated (separate VLAN / network segment)'',
                  ''Partially '' @ emdash @ '' some separation exists'',
                  ''No '' @ emdash @ '' all systems share the same network'',
                  ''Not applicable '' @ emdash @ '' entire environment handles CUI''],
       help_text = None,
       nist_controls = [''SC.3.180'', ''SC.3.183''],
       depends_on = None,
       is_critical = True,
       gap_flag = False \<rparr>"

definition bd_08 :: Question where
  "bd_08 =
     \<lparr> qid = ''bd_08'',
       qtext = ''Have you previously completed a NIST SP 800-171 self-assessment (SPRS score submission)?'',
       qtype = YES_NO,
       choices = [],
       help_text = Some (''DoD contractors are required to submit a NIST SP 800-171 self-assessment score'' @ [CHR 0x0A] @ ''  to the Supplier Performance Risk System (SPRS).''),
       nist_controls = [''CM.2.061''],
       depends_on = None,
       is_critical = False,
       gap_flag = True \<rparr>"

definition bd_08a :: Question where
  "bd_08a =
     \<lparr> qid = ''bd_08a'',
       qtext = ''What is your current SPRS score (if known)?'',
       qtype = TEXT,
       choices = [],
       help_text = Some (''SPRS scores range from -203 (all controls failed) to 110 (all controls met). Enter your score.''),
       nist_controls = [''CM.2.061''],
       depends_on = Some (''bd_08'', PBool True),
       is_critical = False,
       gap_flag = False \<rparr>"

section \<open>Response stores of the scenarios\<close>

text \<open>
  Over the answer values modelled here (\<open>None\<close>, \<open>bool\<close>, \<open>int\<close>, \<open>str\<close>, list of \<open>str\<close>)
  the scorer raises when \<open>df_03\<close> is \<open>True\<close> or a number other than 0 (the test \<open>in\<close> needs
  an iterable) or \<open>si_01\<close> is a list (an unhashable dictionary key), and on no other
  store; this is proved below as \<open>calculate_returns\<close>. Answers of the kind their question
  declares, a list for \<open>df_03\<close> and a string for \<open>si_01\<close>, are always scorable.
\<close>

definition scorable :: "ScopeScorer \<Rightarrow> bool" where
  "scorable self \<longleftrightarrow>
     (case flat self ''df_03'' of Some (PBool b) \<Rightarrow> \<not> b | Some (PInt n) \<Rightarrow> n = 0 | _ \<Rightarrow> True) \<and>
     (case flat self ''si_01'' of Some (PList xs) \<Rightarrow> False | _ \<Rightarrow> True)"

text \<open>Scenario A: nothing answered.\<close>

definition scenario_A :: ScopeScorer where
  "scenario_A = ScopeScorer_init []"

text \<open>Scenario B: \<open>df_01\<close> and \<open>df_02\<close> answered yes, nothing else.\<close>

definition scenario_B :: ScopeScorer where
  "scenario_B =
     ScopeScorer_init [(''data_flow'', Dict [''df_01'' \<mapsto> PBool True, ''df_02'' \<mapsto> PBool True])]"

text \<open>
  Scenario C: \<open>df_01\<close> yes, \<open>df_02\<close> no, and for \<open>df_03\<close> only the last category, the one the
  help text of the question tells an unsure user to select.
\<close>

definition scenario_C :: ScopeScorer where
  "scenario_C =
     ScopeScorer_init
       [(''data_flow'', Dict [''df_01'' \<mapsto> PBool True, ''df_02'' \<mapsto> PBool False,
                              ''df_03'' \<mapsto> PList [CUI_CATEGORIES ! 10]])]"



text \<open>
  Three stores with an answer of the wrong kind, as a checkpoint file given to \<open>--resume\<close>
  can hold them (\<open>true\<close> and \<open>null\<close> in JSON): a boolean for the multi-choice question
  \<open>df_03\<close>, \<open>None\<close> for the choice question \<open>df_06\<close>, and \<open>None\<close> for the choice question
  \<open>df_08a\<close>.
\<close>

definition malformed_df_03 :: ScopeScorer where
  "malformed_df_03 = ScopeScorer_init [(''data_flow'', Dict [''df_03'' \<mapsto> PBool True])]"

definition malformed_df_06 :: ScopeScorer where
  "malformed_df_06 = ScopeScorer_init [(''data_flow'', Dict [''df_06'' \<mapsto> PNone])]"

definition malformed_df_08a :: ScopeScorer where
  "malformed_df_08a = ScopeScorer_init [(''data_flow'', Dict [''df_08a'' \<mapsto> PNone])]"

text \<open>
  A store with two answers of the access-control module that trigger a rule each:
  partial MFA, and a VPN without MFA for remote access.
\<close>

definition weak_access :: ScopeScorer where
  "weak_access =
     ScopeScorer_init
       [(''access_control'', Dict [''ac_02'' \<mapsto> PStr ''Partially implemented'',
                                   ''ac_05'' \<mapsto> PStr (''Yes '' @ emdash @ '' VPN but no MFA'')])]"

text \<open>
  Three questions that are not in the catalog, each with a dependency on a question whose
  answer is a string: on the free-text answer of \<open>bd_08a\<close> being left blank, on the
  free-text answer of \<open>bd_08a\<close> with the expected value \<open>True\<close>, and on the choice of
  \<open>bd_02\<close> with the expected value \<open>False\<close>.
\<close>

definition ask_if_blank :: Question where
  "ask_if_blank =
     \<lparr> qid = ''bd_08b'',
       qtext = ''Do you plan to compute your SPRS score this year?'',
       qtype = YES_NO,
       choices = [],
       help_text = None,
       nist_controls = [],
       depends_on = Some (''bd_08a'', PNone),
       is_critical = False,
       gap_flag = False \<rparr>"

definition ask_if_yes_text :: Question where
  "ask_if_yes_text =
     \<lparr> qid = ''bd_08c'',
       qtext = ''Is the SPRS score on file with your contracting officer?'',
       qtype = YES_NO,
       choices = [],
       help_text = None,
       nist_controls = [],
       depends_on = Some (''bd_08a'', PBool True),
       is_critical = False,
       gap_flag = False \<rparr>"

definition ask_if_not_separated :: Question where
  "ask_if_not_separated =
     \<lparr> qid = ''bd_02a'',
       qtext = ''Is a network segmentation project planned?'',
       qtype = YES_NO,
       choices = [],
       help_text = None,
       nist_controls = [],
       depends_on = Some (''bd_02'', PBool False),
       is_critical = False,
       gap_flag = False \<rparr>"

section \<open>The scoring pass on a heap\<close>

text \<open>
  \<open>calculate\<close> once more, with the Python objects it touches in a heap: the dictionary
  \<open>self.flat\<close>, the lists stored in it as multi-choice answers, the list \<open>gaps\<close> that
  \<open>_identify_gaps\<close> creates and appends to, the set \<open>controls\<close> that \<open>_nist_control_gaps\<close>
  creates and adds to, and the lists that \<open>sorted\<close> and the list comprehension create. A
  value is \<open>None\<close>, a \<open>bool\<close>, an \<open>int\<close>, a \<open>str\<close> or a reference to a list; objects are
  created at the next free address. Expressions that only read (\<open>dict.get\<close>, \<open>is\<close>, \<open>in\<close>,
  \<open>str\<close>, \<open>bool\<close>) are evaluated by the definitions above on what the heap holds at that
  moment; \<open>append\<close> and \<open>add\<close> write to the object they are called on. A gap record, a
  dictionary that nothing changes once it is appended, is kept as a value.
\<close>

type_synonym addr = nat

datatype hval = HNone | HBool bool | HInt int | HStr string | HRef addr

datatype obj =
    ODict "string \<rightharpoonup> hval"
  | OList "string list"
  | OGaps "gap_record list"
  | OSet "string set"

record heap =
  cells :: "addr \<rightharpoonup> obj"
  next_free :: addr

definition alloc :: "obj \<Rightarrow> heap \<Rightarrow> addr \<times> heap" where
  "alloc ob h =
     (next_free h, \<lparr> cells = (cells h)(next_free h \<mapsto> ob), next_free = Suc (next_free h) \<rparr>)"

definition store_obj :: "addr \<Rightarrow> obj \<Rightarrow> heap \<Rightarrow> heap" where
  "store_obj a ob h = h\<lparr> cells := (cells h)(a \<mapsto> ob) \<rparr>"

text \<open>What a value stands for, following a reference to the list it points to.\<close>

definition deref :: "heap \<Rightarrow> hval \<Rightarrow> pyval" where
  "deref h v =
     (case v of
        HNone \<Rightarrow> PNone
      | HBool b \<Rightarrow> PBool b
      | HInt n \<Rightarrow> PInt n
      | HStr s \<Rightarrow> PStr s
      | HRef a \<Rightarrow> (case cells h a of Some (OList xs) \<Rightarrow> PList xs | _ \<Rightarrow> PNone))"

definition store_of :: "heap \<Rightarrow> addr \<Rightarrow> store" where
  "store_of h a =
     (case cells h a of
        Some (ODict d) \<Rightarrow> (\<lambda>k. map_option (deref h) (d k))
      | _ \<Rightarrow> Map.empty)"

definition gaps_at :: "heap \<Rightarrow> addr \<Rightarrow> gap_record list" where
  "gaps_at h a = (case cells h a of Some (OGaps gs) \<Rightarrow> gs | _ \<Rightarrow> [])"

definition set_at :: "heap \<Rightarrow> addr \<Rightarrow> string set" where
  "set_at h a = (case cells h a of Some (OSet S) \<Rightarrow> S | _ \<Rightarrow> {})"

definition strings_at :: "heap \<Rightarrow> addr \<Rightarrow> string list" where
  "strings_at h a = (case cells h a of Some (OList xs) \<Rightarrow> xs | _ \<Rightarrow> [])"

text \<open>
  The scorer object holds the address of its dictionary \<open>flat\<close>; no method assigns an
  attribute of \<open>self\<close>. \<open>view\<close> is the scorer as the reading expressions see it.
\<close>

record ScopeScorer_h =
  flat_ref :: addr

definition view :: "ScopeScorer_h \<Rightarrow> heap \<Rightarrow> ScopeScorer" where
  "view self h = \<lparr> r = [], flat = store_of h (flat_ref self) \<rparr>"

text \<open>
  One \<open>if\<close> statement of \<open>_identify_gaps\<close>: it reads \<open>self.flat\<close> and, when its condition
  holds, appends a record to the list \<open>gaps\<close>. The statements run in the order of
  \<open>gap_rules\<close>, after \<open>gaps = []\<close> has created the list.
\<close>

definition rule_h ::
  "(ScopeScorer \<Rightarrow> gap_record list \<Rightarrow> gap_record list) \<Rightarrow> ScopeScorer_h \<Rightarrow> addr \<Rightarrow> heap \<Rightarrow> heap" where
  "rule_h rule self g h = store_obj g (OGaps (rule (view self h) (gaps_at h g))) h"

definition gap_rules :: "(ScopeScorer \<Rightarrow> gap_record list \<Rightarrow> gap_record list) list" where
  "gap_rules =
     [gaps_mfa, gaps_remote_access, gaps_encryption_at_rest, gaps_encryption_in_transit,
      gaps_network_separation, gaps_shared_services, gaps_ssp_missing, gaps_sprs_not_submitted,
      gaps_logging, gaps_privileged, gaps_usb_control, gaps_byod, gaps_awareness_training,
      gaps_subcontractors]"

definition identify_gaps_h :: "ScopeScorer_h \<Rightarrow> heap \<Rightarrow> addr \<times> heap" where
  "identify_gaps_h self h =
     (case alloc (OGaps []) h of
        (g, h1) \<Rightarrow> (g, fold (\<lambda>rule. rule_h rule self g) gap_rules h1))"

text \<open>
  \<open>_nist_control_gaps\<close>: \<open>controls = set()\<close> creates the set, the loops add the stripped
  tokens of each gap to it, and \<open>sorted\<close> creates a list from it. The order in which a
  Python set of strings is iterated changes from one process to the next, so it is a
  parameter, \<open>iter\<close>; \<open>valid_iter\<close> says that it lists each element once.
\<close>

definition valid_iter :: "(string set \<Rightarrow> string list) \<Rightarrow> bool" where
  "valid_iter iter \<longleftrightarrow> (\<forall>S. finite S \<longrightarrow> set (iter S) = S \<and> distinct (iter S))"

definition nist_control_gaps_h ::
  "(string set \<Rightarrow> string list) \<Rightarrow> addr \<Rightarrow> heap \<Rightarrow> addr \<times> heap" where
  "nist_control_gaps_h iter g h =
     (case alloc (OSet {}) h of
        (c, h1) \<Rightarrow>
          (let h2 = fold (\<lambda>gp h'. store_obj c (OSet (add_controls gp (set_at h' c))) h')
                      (gaps_at h1 g) h1
           in alloc (OList (sort (iter (set_at h2 c)))) h2))"

text \<open>The dictionary \<open>calculate\<close> returns; three of its entries are references to lists.\<close>

record derived_result_h =
  ref_cui_in_scope :: bool
  ref_fci_in_scope :: bool
  ref_cmmc_level_required :: string
  ref_enclave_recommended :: bool
  ref_systems_in_scope :: string
  ref_compliance_gaps :: addr
  ref_gap_count :: nat
  ref_high_priority_gaps :: addr
  ref_nist_control_gaps :: addr
  ref_scope_reduction_possible :: bool

definition calculate_h ::
  "(string set \<Rightarrow> string list) \<Rightarrow> ScopeScorer_h \<Rightarrow> heap \<Rightarrow> (py_error + derived_result_h) \<times> heap" where
  "calculate_h iter self h =
     (case cui_in_scope (view self h) of
        Inl e \<Rightarrow> (Inl e, h)
      | Inr cui \<Rightarrow>
          (let fci = fci_in_scope (view self h);
               level = cmmc_level cui fci
           in case identify_gaps_h self h of
                (g, h1) \<Rightarrow>
                  (case enclave_recommended (view self h1) of
                     Inl e \<Rightarrow> (Inl e, h1)
                   | Inr enclave_rec \<Rightarrow>
                       (case estimate_systems_in_scope (view self h1) of
                          Inl e \<Rightarrow> (Inl e, h1)
                        | Inr scope_sys \<Rightarrow>
                            (case alloc (OGaps (filter (\<lambda>gp. priority gp = ''HIGH'') (gaps_at h1 g))) h1 of
                               (hp, h2) \<Rightarrow>
                                 (case nist_control_gaps_h iter g h2 of
                                    (n, h3) \<Rightarrow>
                                      (Inr \<lparr> ref_cui_in_scope = cui,
                                             ref_fci_in_scope = fci,
                                             ref_cmmc_level_required = level,
                                             ref_enclave_recommended = enclave_rec,
                                             ref_systems_in_scope = scope_sys,
                                             ref_compliance_gaps = g,
                                             ref_gap_count = length (gaps_at h1 g),
                                             ref_high_priority_gaps = hp,
                                             ref_nist_control_gaps = n,
                                             ref_scope_reduction_possible =
                                               scope_reduction_possible (view self h3) \<rparr>,
                                       h3)))))))"

text \<open>The returned dictionary with its references followed: the result as values.\<close>

definition read_result :: "heap \<Rightarrow> derived_result_h \<Rightarrow> derived_result" where
  "read_result h res =
     \<lparr> res_cui_in_scope = ref_cui_in_scope res,
       res_fci_in_scope = ref_fci_in_scope res,
       res_cmmc_level_required = ref_cmmc_level_required res,
       res_enclave_recommended = ref_enclave_recommended res,
       res_systems_in_scope = ref_systems_in_scope res,
       res_compliance_gaps = gaps_at h (ref_compliance_gaps res),
       res_gap_count = ref_gap_count res,
       res_high_priority_gaps = gaps_at h (ref_high_priority_gaps res),
       res_nist_control_gaps = strings_at h (ref_nist_control_gaps res),
       res_scope_reduction_possible = ref_scope_reduction_possible res \<rparr>"

definition run_result :: "(py_error + derived_result_h) \<times> heap \<Rightarrow> py_error + derived_result" where
  "run_result out = (case fst out of Inl e \<Rightarrow> Inl e | Inr res \<Rightarrow> Inr (read_result (snd out) res))"

text \<open>
  A heap in which the scorer's dictionary and the lists it refers to have been created:
  their addresses are below the next free one.
\<close>

definition wf_heap :: "heap \<Rightarrow> ScopeScorer_h \<Rightarrow> bool" where
  "wf_heap h self \<longleftrightarrow>
     flat_ref self < next_free h \<and>
     (\<forall>d k b. cells h (flat_ref self) = Some (ODict d) \<and> d k = Some (HRef b) \<longrightarrow> b < next_free h)"

text \<open>
  A heap with the dictionary of a scorer at address 0, holding a choice and a reference to
  the list at address 1, and two orders of iteration, one the reverse of the other.
\<close>

definition example_heap :: heap where
  "example_heap =
     \<lparr> cells = [0 \<mapsto> ODict [''ac_02'' \<mapsto> HStr ''Partially implemented'', ''df_03'' \<mapsto> HRef 1],
                1 \<mapsto> OList [CUI_CATEGORIES ! 0]],
       next_free = 2 \<rparr>"

definition example_scorer :: ScopeScorer_h where
  "example_scorer = \<lparr> flat_ref = 0 \<rparr>"

definition iter_up :: "string set \<Rightarrow> string list" where
  "iter_up S = sorted_list_of_set S"

definition iter_down :: "string set \<Rightarrow> string list" where
  "iter_down S = rev (sorted_list_of_set S)"

section \<open>Auxiliary facts\<close>

subsection \<open>Evaluation and the shape of \<open>calculate\<close>\<close>

lemmas dict_defs = dict_get_def dict_get_default_def

lemmas str_defs =
  str_int_def str_nat.simps digit_char_def lower_def lower_char_def strip_def is_space_def

lemma flat_init_Nil: "flat (ScopeScorer_init []) = Map.empty"
  by (simp add: ScopeScorer_init_def)

lemma flat_init_one: "flat (ScopeScorer_init [(m, Dict d)]) = d"
  by (simp add: ScopeScorer_init_def flatten_def)


lemma calculate_Inr:
  assumes "cui_in_scope self = Inr cui" and "estimate_systems_in_scope self = Inr scope_sys"
  shows "calculate self =
     (Inr \<lparr> res_cui_in_scope = cui,
            res_fci_in_scope = fci_in_scope self,
            res_cmmc_level_required = cmmc_level cui (fci_in_scope self),
            res_enclave_recommended =
              (cui \<and> (dict_get (flat self) ''bd_03'' = PBool False \<or> dict_get (flat self) ''bd_03'' = PNone) \<and>
               (dict_get (flat self) ''bd_01'' = PBool False \<or> dict_get (flat self) ''bd_04'' \<noteq> PBool False)),
            res_systems_in_scope = scope_sys,
            res_compliance_gaps = identify_gaps self,
            res_gap_count = length (identify_gaps self),
            res_high_priority_gaps = filter (\<lambda>g. priority g = ''HIGH'') (identify_gaps self),
            res_nist_control_gaps = nist_control_gaps (identify_gaps self),
            res_scope_reduction_possible = scope_reduction_possible self \<rparr>, self)"
  using assms by (simp add: calculate_def enclave_recommended_def Let_def)

lemma calculate_Inl:
  "cui_in_scope self = Inl e \<Longrightarrow> calculate self = (Inl e, self)"
  "cui_in_scope self = Inr cui \<Longrightarrow> estimate_systems_in_scope self = Inl e \<Longrightarrow> calculate self = (Inl e, self)"
  by (simp_all add: calculate_def enclave_recommended_def Let_def)

lemma cui_in_scope_returns:
  "(\<exists>b. cui_in_scope self = Inr b) \<longleftrightarrow> (case flat self ''df_03'' of Some (PBool b) \<Rightarrow> \<not> b | Some (PInt n) \<Rightarrow> n = 0 | _ \<Rightarrow> True)"
  by (auto simp: cui_in_scope_def dict_defs Let_def split: option.splits pyval.splits sum.splits)

lemma estimate_returns:
  "(\<exists>s. estimate_systems_in_scope self = Inr s) \<longleftrightarrow> (case flat self ''si_01'' of Some (PList xs) \<Rightarrow> False | _ \<Rightarrow> True)"
  by (auto simp: estimate_systems_in_scope_def total_map_get_def dict_defs Let_def split: option.splits pyval.splits sum.splits)

lemma calculate_returns: "(\<exists>res. fst (calculate self) = Inr res) \<longleftrightarrow> scorable self"
proof
  assume "\<exists>res. fst (calculate self) = Inr res"
  then obtain res where res: "fst (calculate self) = Inr res" by blast
  have "\<exists>b. cui_in_scope self = Inr b"
    using res by (cases "cui_in_scope self") (auto simp: calculate_Inl)
  moreover have "\<exists>s. estimate_systems_in_scope self = Inr s"
    using res calculation by (cases "estimate_systems_in_scope self") (auto simp: calculate_Inl)
  ultimately show "scorable self"
    unfolding scorable_def cui_in_scope_returns[symmetric] estimate_returns[symmetric] by blast
next
  assume "scorable self"
  then obtain b s where "cui_in_scope self = Inr b" "estimate_systems_in_scope self = Inr s"
    unfolding scorable_def cui_in_scope_returns[symmetric] estimate_returns[symmetric] by blast
  then show "\<exists>res. fst (calculate self) = Inr res"
    by (simp add: calculate_Inr)
qed

subsection \<open>The bucket values\<close>




subsection \<open>The gap rules one by one\<close>

lemmas gaps_rule_defs =
  gaps_mfa_def gaps_remote_access_def gaps_encryption_at_rest_def gaps_encryption_in_transit_def
  gaps_network_separation_def gaps_shared_services_def gaps_ssp_missing_def
  gaps_sprs_not_submitted_def gaps_logging_def gaps_privileged_def gaps_usb_control_def
  gaps_byod_def gaps_awareness_training_def gaps_subcontractors_def

lemma gaps_append:
  "gaps_mfa self gaps = gaps @ gaps_mfa self []"
  "gaps_remote_access self gaps = gaps @ gaps_remote_access self []"
  "gaps_encryption_at_rest self gaps = gaps @ gaps_encryption_at_rest self []"
  "gaps_encryption_in_transit self gaps = gaps @ gaps_encryption_in_transit self []"
  "gaps_network_separation self gaps = gaps @ gaps_network_separation self []"
  "gaps_shared_services self gaps = gaps @ gaps_shared_services self []"
  "gaps_ssp_missing self gaps = gaps @ gaps_ssp_missing self []"
  "gaps_sprs_not_submitted self gaps = gaps @ gaps_sprs_not_submitted self []"
  "gaps_logging self gaps = gaps @ gaps_logging self []"
  "gaps_privileged self gaps = gaps @ gaps_privileged self []"
  "gaps_usb_control self gaps = gaps @ gaps_usb_control self []"
  "gaps_byod self gaps = gaps @ gaps_byod self []"
  "gaps_awareness_training self gaps = gaps @ gaps_awareness_training self []"
  "gaps_subcontractors self gaps = gaps @ gaps_subcontractors self []"
  by (simp_all add: gaps_rule_defs gap_def Let_def)

lemma gaps_missing:
  "flat self ''ac_02'' = None \<Longrightarrow> gaps_mfa self gaps = gaps"
  "flat self ''ac_05'' = None \<Longrightarrow> gaps_remote_access self gaps = gaps"
  "flat self ''df_06'' = None \<Longrightarrow> gaps_encryption_at_rest self gaps = gaps"
  "flat self ''df_07'' = None \<Longrightarrow> gaps_encryption_in_transit self gaps = gaps"
  "flat self ''bd_02'' = None \<Longrightarrow> gaps_network_separation self gaps = gaps"
  "flat self ''bd_06'' = None \<or> flat self ''bd_06a'' = None \<Longrightarrow> gaps_shared_services self gaps = gaps"
  "flat self ''bd_07'' = None \<Longrightarrow> gaps_ssp_missing self gaps = gaps"
  "flat self ''bd_08'' = None \<Longrightarrow> gaps_sprs_not_submitted self gaps = gaps"
  "flat self ''ac_07'' = None \<Longrightarrow> gaps_logging self gaps = gaps"
  "flat self ''ac_03'' = None \<Longrightarrow> gaps_privileged self gaps = gaps"
  "flat self ''ac_08'' = None \<Longrightarrow> gaps_usb_control self gaps = gaps"
  "flat self ''si_04'' = None \<Longrightarrow> gaps_byod self gaps = gaps"
  "flat self ''ac_09'' = None \<Longrightarrow> gaps_awareness_training self gaps = gaps"
  "flat self ''df_08a'' = None \<Longrightarrow> gaps_subcontractors self gaps = gaps"
  by (auto simp: gaps_rule_defs dict_defs Let_def lower_def)

lemma gaps_frame:
  "flat s' ''ac_02'' = flat s ''ac_02'' \<Longrightarrow> gaps_mfa s' gaps = gaps_mfa s gaps"
  "flat s' ''ac_05'' = flat s ''ac_05'' \<Longrightarrow> gaps_remote_access s' gaps = gaps_remote_access s gaps"
  "flat s' ''df_06'' = flat s ''df_06'' \<Longrightarrow> gaps_encryption_at_rest s' gaps = gaps_encryption_at_rest s gaps"
  "flat s' ''df_07'' = flat s ''df_07'' \<Longrightarrow> gaps_encryption_in_transit s' gaps = gaps_encryption_in_transit s gaps"
  "flat s' ''bd_02'' = flat s ''bd_02'' \<Longrightarrow> gaps_network_separation s' gaps = gaps_network_separation s gaps"
  "flat s' ''bd_06'' = flat s ''bd_06'' \<Longrightarrow> flat s' ''bd_06a'' = flat s ''bd_06a'' \<Longrightarrow>
     gaps_shared_services s' gaps = gaps_shared_services s gaps"
  "flat s' ''bd_07'' = flat s ''bd_07'' \<Longrightarrow> gaps_ssp_missing s' gaps = gaps_ssp_missing s gaps"
  "flat s' ''bd_08'' = flat s ''bd_08'' \<Longrightarrow> gaps_sprs_not_submitted s' gaps = gaps_sprs_not_submitted s gaps"
  "flat s' ''ac_07'' = flat s ''ac_07'' \<Longrightarrow> gaps_logging s' gaps = gaps_logging s gaps"
  "flat s' ''ac_03'' = flat s ''ac_03'' \<Longrightarrow> gaps_privileged s' gaps = gaps_privileged s gaps"
  "flat s' ''ac_08'' = flat s ''ac_08'' \<Longrightarrow> gaps_usb_control s' gaps = gaps_usb_control s gaps"
  "flat s' ''si_04'' = flat s ''si_04'' \<Longrightarrow> gaps_byod s' gaps = gaps_byod s gaps"
  "flat s' ''ac_09'' = flat s ''ac_09'' \<Longrightarrow> gaps_awareness_training s' gaps = gaps_awareness_training s gaps"
  "flat s' ''df_08a'' = flat s ''df_08a'' \<Longrightarrow> gaps_subcontractors s' gaps = gaps_subcontractors s gaps"
  by (simp_all add: gaps_rule_defs dict_defs)

lemma rule_mono:
  assumes app: "\<And>s gs. g s gs = gs @ g s []"
      and one: "g s [] = [] \<or> g s' [] = g s []"
      and sub: "subseq gaps gaps'"
  shows "subseq (g s gaps) (g s' gaps')"
proof -
  have "subseq (g s []) (g s' [])"
    using one by auto
  then have "subseq (gaps @ g s []) (gaps' @ g s' [])"
    using sub by (rule list_emb_append_mono[rotated])
  then show ?thesis
    using app[of s gaps] app[of s' gaps'] by simp
qed

subsection \<open>\<open>split\<close>, \<open>join\<close> and \<open>strip\<close>\<close>

lemma split_not_Nil: "split sep s \<noteq> []"
  by (induction s) (auto split: list.splits)

lemma split_no_sep: "t \<in> set (split sep s) \<Longrightarrow> sep \<notin> set t"
  by (induction s arbitrary: t) (auto split: list.splits if_splits)

lemma join_split: "join [sep] (split sep s) = s"
proof (induction s)
  case Nil
  show ?case by simp
next
  case (Cons c cs)
  obtain t ts where ts: "split sep cs = t # ts"
    using split_not_Nil[of sep cs] by (cases "split sep cs") auto
  show ?case
    using Cons ts by (cases ts) auto
qed

lemma dropWhile_decomp: "\<exists>a. s = a @ dropWhile P s \<and> (\<forall>c\<in>set a. P c)"
  by (rule exI[of _ "takeWhile P s"]) (auto dest: set_takeWhileD)

lemma strip_decomp:
  "\<exists>a b. s = a @ strip s @ b \<and> (\<forall>c\<in>set a. is_space c) \<and> (\<forall>c\<in>set b. is_space c)"
proof -
  let ?d = "dropWhile is_space s"
  let ?a = "takeWhile is_space s"
  let ?b = "takeWhile is_space (rev ?d)"
  have 1: "s = ?a @ ?d" by simp
  have "rev ?d = ?b @ dropWhile is_space (rev ?d)" by simp
  then have "rev (rev ?d) = rev (?b @ dropWhile is_space (rev ?d))" by (rule arg_cong)
  then have 2: "?d = strip s @ rev ?b" by (simp only: rev_rev_ident rev_append strip_def)
  have 3: "s = ?a @ strip s @ rev ?b" using 1 2 by (metis)
  have 4: "\<forall>c\<in>set ?a. is_space c" by (auto dest: set_takeWhileD)
  have 5: "\<forall>c\<in>set (rev ?b). is_space c" by (auto dest: set_takeWhileD)
  show ?thesis
    using 3 4 5 by blast
qed

lemma strip_ends:
  assumes "strip s \<noteq> []"
  shows "\<not> is_space (hd (strip s)) \<and> \<not> is_space (last (strip s))"
proof -
  let ?d = "dropWhile is_space s"
  let ?e = "dropWhile is_space (rev ?d)"
  have se: "strip s = rev ?e" by (simp only: strip_def)
  have e: "?e \<noteq> []" using assms unfolding se by (simp only: rev_is_Nil_conv not_False_eq_True)
  then have 1: "\<not> is_space (hd ?e)" by (rule hd_dropWhile)
  have d: "?d \<noteq> []"
  proof
    assume "?d = []"
    then have "?e = []" by (metis dropWhile.simps(1) rev.simps(1))
    with e show False by (simp only:)
  qed
  then have 2: "\<not> is_space (hd ?d)" by (rule hd_dropWhile)
  have "rev ?d = takeWhile is_space (rev ?d) @ ?e" by simp
  then have "last (rev ?d) = last ?e" using e by (metis last_appendR)
  then have 3: "last ?e = hd ?d"
    using d by (simp only: last_rev)
  have "hd (strip s) = last ?e" unfolding se using e by (simp only: hd_rev)
  moreover have "last (strip s) = hd ?e" unfolding se using e by (simp only: last_rev)
  ultimately show ?thesis
    using 1 2 3 by (simp only: simp_thms)
qed

subsection \<open>The set of controls\<close>

lemma fold_insert_image: "fold (\<lambda>c S. insert (f c) S) xs S = S \<union> f ` set xs"
  by (induction xs arbitrary: S) auto

lemma add_controls_eq:
  "add_controls g S = S \<union> strip ` set (split CHR ''/'' (nist_control g))"
  by (simp only: add_controls_def fold_insert_image)

lemma fold_add_controls:
  "fold add_controls gaps S = S \<union> (\<Union>g\<in>set gaps. strip ` set (split CHR ''/'' (nist_control g)))"
proof (induction gaps arbitrary: S)
  case Nil
  show ?case by simp
next
  case (Cons g gaps)
  have "fold add_controls (g # gaps) S = fold add_controls gaps (add_controls g S)"
    by simp
  also have "\<dots> = add_controls g S \<union> (\<Union>g\<in>set gaps. strip ` set (split CHR ''/'' (nist_control g)))"
    by (rule Cons.IH)
  also have "\<dots> = S \<union> (\<Union>g\<in>set (g # gaps). strip ` set (split CHR ''/'' (nist_control g)))"
    unfolding add_controls_eq by auto
  finally show ?case .
qed

lemma nist_control_gaps_code:
  "nist_control_gaps gaps =
     sort (remdups (concat (map (\<lambda>g. map strip (split CHR ''/'' (nist_control g))) gaps)))"
proof -
  have "fold add_controls gaps {} =
        set (concat (map (\<lambda>g. map strip (split CHR ''/'' (nist_control g))) gaps))"
    unfolding fold_add_controls by auto
  then show ?thesis
    by (simp only: nist_control_gaps_def sorted_list_of_set_sort_remdups)
qed

subsection \<open>The categories test on answers of the catalog\<close>

text \<open>
  No label of \<open>CUI_CATEGORIES\<close> is the string \<open>I am not sure\<close>, so for an answer drawn
  from the choices of \<open>df_03\<close> the test of \<open>_cui_in_scope\<close> on the categories comes down to
  the list not being empty.
\<close>

lemma cui_in_scope_catalog_answer:
  assumes "flat self ''df_03'' = Some (PList cats)" and "set cats \<subseteq> set CUI_CATEGORIES"
  shows "cui_in_scope self =
           Inr (flat self ''df_01'' = Some (PBool True) \<and>
                (flat self ''df_02'' = Some (PBool True) \<or> cats \<noteq> []))"
proof -
  have "''I am not sure'' \<notin> set CUI_CATEGORIES"
    by (simp add: CUI_CATEGORIES_def)
  then have "''I am not sure'' \<notin> set cats"
    using assms(2) by blast
  then show ?thesis
    using assms(1) by (auto simp: cui_in_scope_def dict_defs split: option.splits)
qed

lemma subseq_set_mono: "subseq xs ys \<Longrightarrow> set xs \<subseteq> set ys"
  by (auto elim: list_emb_set)

subsection \<open>The loop of \<open>run\<close>\<close>

lemmas engine_defs =
  run_def dependency_met_def matches_expected_def to_bool_def dict_get_def collect_answer_def
  ask_text_def py_int_def is_digit_def int_value_def digit_val_def
  lower_def lower_char_def strip_def is_space_def

lemma run_loop_append:
  "run_loop (xs @ ys) st = (case run_loop xs st of Inl e \<Rightarrow> Inl e | Inr mid \<Rightarrow> run_loop ys mid)"
  by (induction xs arbitrary: st) (auto split: sum.splits)

lemma run_loop_frame:
  "run_loop qs st = Inr st' \<Longrightarrow> k \<notin> qid ` set qs \<Longrightarrow> answers st' k = answers st k"
proof (induction qs arbitrary: st)
  case Nil
  then show ?case by simp
next
  case (Cons q qs)
  show ?case
  proof (cases "dependency_met (answers st) q")
    case False
    then show ?thesis using Cons by simp
  next
    case True
    then obtain a rest where c: "collect_answer q (stdin st) = Inr (a, rest)"
      using Cons.prems(1) by (auto split: sum.splits)
    let ?st1 = "\<lparr> answers = (answers st)(qid q \<mapsto> a), shown = shown st + 1, stdin = rest,
                  stdout = stdout st @ [Shown (qid q) (shown st + 1)] \<rparr>"
    have "run_loop qs ?st1 = Inr st'"
      using Cons.prems(1) True c by simp
    then have "answers st' k = answers ?st1 k"
      using Cons.prems(2) by (intro Cons.IH) auto
    then show ?thesis using Cons.prems(2) by simp
  qed
qed

lemma run_loop_events:
  "run_loop qs st = Inr st' \<Longrightarrow>
   \<exists>evs. stdout st' = stdout st @ evs \<and>
         shown st' = shown st + length evs \<and>
         map ev_num evs = [Suc (shown st) ..< Suc (shown st) + length evs] \<and>
         subseq (map ev_id evs) (map qid qs) \<and>
         dom (answers st') = dom (answers st) \<union> set (map ev_id evs)"
proof (induction qs arbitrary: st)
  case Nil
  then show ?case by simp
next
  case (Cons q qs)
  show ?case
  proof (cases "dependency_met (answers st) q")
    case False
    then have "run_loop qs st = Inr st'" using Cons.prems by simp
    from Cons.IH[OF this] obtain evs where evs: "stdout st' = stdout st @ evs"
      "shown st' = shown st + length evs"
      "map ev_num evs = [Suc (shown st) ..< Suc (shown st) + length evs]"
      "subseq (map ev_id evs) (map qid qs)"
      "dom (answers st') = dom (answers st) \<union> set (map ev_id evs)" by blast
    have "subseq (map ev_id evs) (map qid (q # qs))"
      using evs(4) by auto
    then show ?thesis using evs by blast
  next
    case True
    then obtain a rest where c: "collect_answer q (stdin st) = Inr (a, rest)"
      using Cons.prems(1) by (auto split: sum.splits)
    let ?st1 = "\<lparr> answers = (answers st)(qid q \<mapsto> a), shown = shown st + 1, stdin = rest,
                  stdout = stdout st @ [Shown (qid q) (shown st + 1)] \<rparr>"
    have "run_loop qs ?st1 = Inr st'"
      using Cons.prems(1) True c by simp
    from Cons.IH[OF this] obtain evs where evs: "stdout st' = stdout ?st1 @ evs"
      "shown st' = shown ?st1 + length evs"
      "map ev_num evs = [Suc (shown ?st1) ..< Suc (shown ?st1) + length evs]"
      "subseq (map ev_id evs) (map qid qs)"
      "dom (answers st') = dom (answers ?st1) \<union> set (map ev_id evs)" by blast
    let ?evs = "Shown (qid q) (shown st + 1) # evs"
    have 1: "stdout st' = stdout st @ ?evs" using evs(1) by simp
    have 2: "shown st' = shown st + length ?evs" using evs(2) by simp
    have "[Suc (shown st) ..< Suc (shown st) + length ?evs] =
          Suc (shown st) # [Suc (shown ?st1) ..< Suc (shown ?st1) + length evs]"
      by (subst upt_conv_Cons) simp_all
    then have 3: "map ev_num ?evs = [Suc (shown st) ..< Suc (shown st) + length ?evs]"
      using evs(3) by (simp del: upt_Suc)
    have 4: "subseq (map ev_id ?evs) (map qid (q # qs))"
      using evs(4) by simp
    have 5: "dom (answers st') = dom (answers st) \<union> set (map ev_id ?evs)"
      using evs(5) by auto
    show ?thesis using 1 2 3 4 5 by blast
  qed
qed

lemma run_loop_dom:
  assumes "run_loop qs st = Inr st'"
  shows "dom (answers st') \<subseteq> dom (answers st) \<union> qid ` set qs"
proof -
  obtain evs where "subseq (map ev_id evs) (map qid qs)"
      "dom (answers st') = dom (answers st) \<union> set (map ev_id evs)"
    using run_loop_events[OF assms] by blast
  then show ?thesis
    using subseq_set_mono[of "map ev_id evs" "map qid qs"] by auto
qed

lemma run_loop_head:
  assumes "run_loop (q # post) mid = Inr st'" and "qid q \<notin> qid ` set post" and "qid q \<notin> dom (answers mid)"
  shows "qid q \<in> dom (answers st') \<longleftrightarrow> dependency_met (answers mid) q"
proof (cases "dependency_met (answers mid) q")
  case False
  then have "run_loop post mid = Inr st'" using assms(1) by simp
  then have "dom (answers st') \<subseteq> dom (answers mid) \<union> qid ` set post"
    by (rule run_loop_dom)
  then show ?thesis using False assms(2,3) by auto
next
  case True
  then obtain a rest where c: "collect_answer q (stdin mid) = Inr (a, rest)"
    using assms(1) by (auto split: sum.splits)
  let ?st1 = "\<lparr> answers = (answers mid)(qid q \<mapsto> a), shown = shown mid + 1, stdin = rest,
                stdout = stdout mid @ [Shown (qid q) (shown mid + 1)] \<rparr>"
  have "run_loop post ?st1 = Inr st'"
    using assms(1) True c by simp
  then have "answers st' (qid q) = answers ?st1 (qid q)"
    using assms(2) by (rule run_loop_frame)
  then show ?thesis using True by auto
qed

lemma run_presented_iff:
  assumes dist: "distinct (map qid (pre @ q # post))"
      and run: "run (pre @ q # post) lines = Inr st"
  shows "qid q \<in> dom (answers st) \<longleftrightarrow> dependency_met (answers st |` (qid ` set pre)) q"
proof -
  let ?st0 = "\<lparr> answers = Map.empty, shown = 0, stdin = lines, stdout = [] \<rparr>"
  have r: "run_loop (pre @ q # post) ?st0 = Inr st"
    using run by (simp only: run_def)
  then obtain mid where mid: "run_loop pre ?st0 = Inr mid" "run_loop (q # post) mid = Inr st"
    unfolding run_loop_append by (auto split: sum.splits)
  have dom_mid: "dom (answers mid) \<subseteq> qid ` set pre"
    using run_loop_dom[OF mid(1)] by simp
  have q_new: "qid q \<notin> qid ` set post" "qid q \<notin> qid ` set pre"
    using dist by auto
  have disj: "set (map qid pre) \<inter> set (map qid (q # post)) = {}"
    using dist by (simp only: map_append distinct_append)
  have "answers mid k = (answers st |` (qid ` set pre)) k" for k
  proof (cases "k \<in> qid ` set pre")
    case True
    then have "k \<notin> qid ` set (q # post)" using disj by (simp only: set_map) blast
    then have "answers st k = answers mid k"
      using mid(2) run_loop_frame by blast
    then show ?thesis using True by simp
  next
    case False
    then have "answers mid k = None" using dom_mid by blast
    then show ?thesis using False by simp
  qed
  then have eq: "answers mid = answers st |` (qid ` set pre)" by (rule ext)
  have "qid q \<notin> dom (answers mid)" using dom_mid q_new(2) by blast
  then have "qid q \<in> dom (answers st) \<longleftrightarrow> dependency_met (answers mid) q"
    using mid(2) q_new(1) by (intro run_loop_head)
  then show ?thesis by (simp only: eq)
qed

lemma dependency_met_entry:
  "depends_on q = None \<Longrightarrow> dependency_met A q"
  "depends_on q = Some (d, e) \<Longrightarrow> e \<noteq> PNone \<Longrightarrow>
     dependency_met A q \<longleftrightarrow> (\<exists>v. A d = Some v \<and> matches_expected v e)"
  "depends_on q = Some (d, PNone) \<Longrightarrow>
     dependency_met A q \<longleftrightarrow> A d = None \<or> A d = Some PNone"
proof -
  show "depends_on q = None \<Longrightarrow> dependency_met A q"
    by (simp add: dependency_met_def)
  show "dependency_met A q \<longleftrightarrow> (\<exists>v. A d = Some v \<and> matches_expected v e)"
    if "depends_on q = Some (d, e)" "e \<noteq> PNone"
  proof (cases "A d")
    case None
    have "\<not> matches_expected PNone e"
      using that(2) by (cases e) (simp_all add: matches_expected_def to_bool_def)
    then show ?thesis using None that(1) by (simp add: dependency_met_def dict_get_def)
  next
    case (Some v)
    then show ?thesis using that(1) by (simp add: dependency_met_def dict_get_def)
  qed
  show "dependency_met A q \<longleftrightarrow> A d = None \<or> A d = Some PNone"
    if "depends_on q = Some (d, PNone)"
    using that by (cases "A d") (simp_all add: dependency_met_def dict_get_def matches_expected_def)
qed

subsection \<open>The multi-choice prompt\<close>

lemma ask_multi_choice_result:
  assumes "chs \<noteq> []" and "ask_multi_choice chs lines = Inr (sel, rest)"
  shows "sel \<noteq> [] \<and> set sel \<subseteq> set chs"
  using assms(2)
proof (induction lines)
  case Nil
  then show ?case by simp
next
  case (Cons line lines)
  let ?ans = "strip line"
  show ?case
  proof (cases "lower ?ans = ''all''")
    case True
    then have "sel = chs" using Cons.prems by simp
    then show ?thesis using assms(1) by simp
  next
    case notall: False
    show ?thesis
    proof (cases "those (map (\<lambda>x. py_int (strip x)) (split CHR '','' ?ans))")
      case None
      then have "ask_multi_choice chs lines = Inr (sel, rest)"
        using Cons.prems notall by simp
      then show ?thesis by (rule Cons.IH)
    next
      case (Some ns)
      let ?selected = "map (\<lambda>i. chs ! nat i)
                         (filter (\<lambda>i. 0 \<le> i \<and> i < int (length chs)) (map (\<lambda>n. n - 1) ns))"
      show ?thesis
      proof (cases "?selected = []")
        case True
        then have "ask_multi_choice chs lines = Inr (sel, rest)"
          using Cons.prems notall Some by (simp add: Let_def)
        then show ?thesis by (rule Cons.IH)
      next
        case False
        then have sel: "sel = ?selected"
          using Cons.prems notall Some by (simp add: Let_def)
        have "set ?selected \<subseteq> set chs"
          by (auto simp: nat_less_iff)
        then show ?thesis using False sel by simp
      qed
    qed
  qed
qed

lemma collect_multi_choice:
  assumes "qtype q = MULTI_CHOICE" and "choices q \<noteq> []" and "collect_answer q lines = Inr (v, rest)"
  shows "\<exists>sel. v = PList sel \<and> sel \<noteq> [] \<and> set sel \<subseteq> set (choices q)"
proof -
  obtain sel where sel: "ask_multi_choice (choices q) lines = Inr (sel, rest)" "v = PList sel"
    using assms(1,3) by (cases "ask_multi_choice (choices q) lines") (auto simp: collect_answer_def)
  show ?thesis
    using ask_multi_choice_result[OF assms(2) sel(1)] sel(2) by blast
qed

lemma collect_multi_choice_all:
  assumes "qtype q = MULTI_CHOICE" and "lower (strip line) = ''all''"
  shows "collect_answer q (line # rest) = Inr (PList (choices q), rest)"
  using assms by (simp add: collect_answer_def)

lemma run_recorded:
  assumes dist: "distinct (map qid qs)" and q: "q \<in> set qs"
      and run: "run qs lines = Inr st" and v: "answers st (qid q) = Some v"
  shows "\<exists>inp rest. collect_answer q inp = Inr (v, rest)"
proof -
  obtain pre post where qs: "qs = pre @ q # post"
    using q by (auto dest: split_list)
  let ?st0 = "\<lparr> answers = Map.empty, shown = 0, stdin = lines, stdout = [] \<rparr>"
  have "run_loop (pre @ q # post) ?st0 = Inr st"
    using run qs by (simp only: run_def)
  then obtain mid where mid: "run_loop pre ?st0 = Inr mid" "run_loop (q # post) mid = Inr st"
    unfolding run_loop_append by (auto split: sum.splits)
  have q_new: "qid q \<notin> qid ` set post" "qid q \<notin> qid ` set pre"
    using dist qs by auto
  have "dom (answers mid) \<subseteq> qid ` set pre"
    using run_loop_dom[OF mid(1)] by simp
  then have fresh: "qid q \<notin> dom (answers mid)"
    using q_new(2) by blast
  have "qid q \<in> dom (answers st)" using v by blast
  then have met: "dependency_met (answers mid) q"
    using run_loop_head[OF mid(2) q_new(1) fresh] by simp
  then obtain a rest where c: "collect_answer q (stdin mid) = Inr (a, rest)"
    using mid(2) by (auto split: sum.splits)
  let ?st1 = "\<lparr> answers = (answers mid)(qid q \<mapsto> a), shown = shown mid + 1, stdin = rest,
                stdout = stdout mid @ [Shown (qid q) (shown mid + 1)] \<rparr>"
  have "run_loop post ?st1 = Inr st"
    using mid(2) met c by simp
  then have "answers st (qid q) = answers ?st1 (qid q)"
    using q_new(1) by (rule run_loop_frame)
  then have "v = a" using v by simp
  then show ?thesis using c by blast
qed

subsection \<open>Frames on the heap\<close>

text \<open>
  What \<open>alloc\<close> and a write change, and what reading the store needs to stay the same.
\<close>

lemma alloc_frame:
  assumes "alloc ob h = (a, h')"
  shows "a = next_free h" and "next_free h' = Suc (next_free h)" and "cells h' a = Some ob"
    and "\<And>b. b \<noteq> next_free h \<Longrightarrow> cells h' b = cells h b"
  using assms by (auto simp: alloc_def)

lemma store_obj_frame:
  "next_free (store_obj a ob h) = next_free h"
  "cells (store_obj a ob h) a = Some ob"
  "b \<noteq> a \<Longrightarrow> cells (store_obj a ob h) b = cells h b"
  by (simp_all add: store_obj_def)

lemma deref_agree:
  assumes "\<And>b. v = HRef b \<Longrightarrow> cells h' b = cells h b"
  shows "deref h' v = deref h v"
  using assms by (cases v) (simp_all add: deref_def)

lemma store_of_agree:
  assumes wf: "wf_heap h self"
      and agree: "\<And>a. a < next_free h \<Longrightarrow> cells h' a = cells h a"
  shows "store_of h' (flat_ref self) = store_of h (flat_ref self)"
proof -
  have fa: "cells h' (flat_ref self) = cells h (flat_ref self)"
    using wf agree by (simp add: wf_heap_def)
  show ?thesis
  proof (cases "cells h (flat_ref self)")
    case None
    then show ?thesis using fa by (simp add: store_of_def)
  next
    case (Some ob)
    show ?thesis
    proof (cases ob)
      case (ODict d)
      have "map_option (deref h') (d k) = map_option (deref h) (d k)" for k
      proof (cases "d k")
        case None
        then show ?thesis by simp
      next
        case (Some v)
        have "deref h' v = deref h v"
        proof (rule deref_agree)
          fix b assume "v = HRef b"
          then have "b < next_free h"
            using wf \<open>cells h (flat_ref self) = Some ob\<close> ODict Some by (auto simp: wf_heap_def)
          then show "cells h' b = cells h b" by (rule agree)
        qed
        then show ?thesis using Some by simp
      qed
      then show ?thesis
        using fa Some ODict by (simp add: store_of_def)
    qed (use fa Some in \<open>simp_all add: store_of_def\<close>)
  qed
qed

lemma view_agree:
  assumes "wf_heap h self" and "\<And>a. a < next_free h \<Longrightarrow> cells h' a = cells h a"
  shows "view self h' = view self h"
  using store_of_agree[OF assms] by (simp add: view_def)

lemma wf_heap_agree:
  assumes wf: "wf_heap h self"
      and agree: "\<And>a. a < next_free h \<Longrightarrow> cells h' a = cells h a"
      and le: "next_free h \<le> next_free h'"
  shows "wf_heap h' self"
proof -
  have fa: "cells h' (flat_ref self) = cells h (flat_ref self)"
    using wf agree by (simp add: wf_heap_def)
  show ?thesis
    unfolding wf_heap_def fa using wf le by (fastforce simp: wf_heap_def)
qed

subsection \<open>The rules on the heap\<close>

lemma fold_rule_h:
  assumes wf: "wf_heap h0 self"
      and g: "next_free h0 \<le> g"
      and agree: "\<And>a. a < next_free h0 \<Longrightarrow> cells h a = cells h0 a"
  shows "(\<forall>a. a \<noteq> g \<longrightarrow> cells (fold (\<lambda>rule. rule_h rule self g) rules h) a = cells h a) \<and>
         next_free (fold (\<lambda>rule. rule_h rule self g) rules h) = next_free h \<and>
         gaps_at (fold (\<lambda>rule. rule_h rule self g) rules h) g =
           fold (\<lambda>rule gs. rule (view self h0) gs) rules (gaps_at h g)"
  using agree
proof (induction rules arbitrary: h)
  case Nil
  show ?case by simp
next
  case (Cons rule rules)
  let ?h1 = "rule_h rule self g h"
  have v: "view self h = view self h0"
    using wf Cons.prems by (rule view_agree)
  have c1: "cells ?h1 a = cells h a" if "a \<noteq> g" for a
    using that by (simp add: rule_h_def store_obj_frame)
  have n1: "next_free ?h1 = next_free h"
    by (simp add: rule_h_def store_obj_frame)
  have g1: "gaps_at ?h1 g = rule (view self h0) (gaps_at h g)"
    by (simp add: rule_h_def v gaps_at_def store_obj_frame)
  have agree1: "cells ?h1 a = cells h0 a" if "a < next_free h0" for a
    using that g c1[of a] Cons.prems[of a] by simp
  note IH = Cons.IH[of ?h1, OF agree1]
  show ?case
    using IH c1 n1 g1 by simp
qed

lemma identify_gaps_fold:
  "identify_gaps v = fold (\<lambda>rule gs. rule v gs) gap_rules []"
  by (simp add: identify_gaps_def gap_rules_def)

lemma identify_gaps_h_spec:
  assumes wf: "wf_heap h self" and run: "identify_gaps_h self h = (g, h')"
  shows "g = next_free h" and "next_free h' = Suc (next_free h)"
    and "\<And>a. a < next_free h \<Longrightarrow> cells h' a = cells h a"
    and "gaps_at h' g = identify_gaps (view self h)"
proof -
  obtain h1 where al: "alloc (OGaps []) h = (g, h1)"
      and h': "h' = fold (\<lambda>rule. rule_h rule self g) gap_rules h1"
    using run by (auto simp: identify_gaps_h_def split: prod.splits)
  note a = alloc_frame[OF al]
  show geq: "g = next_free h" by (rule a(1))
  have agree1: "cells h1 b = cells h b" if "b < next_free h" for b
    using that a(4)[of b] by simp
  have le: "next_free h \<le> g" using geq by simp
  note f = fold_rule_h[OF wf le agree1, of gap_rules]
  show "next_free h' = Suc (next_free h)"
    using f a(2) by (simp add: h')
  show "cells h' b = cells h b" if "b < next_free h" for b
    using that f agree1[of b] geq by (simp add: h')
  have "gaps_at h1 g = []"
    using a(3) by (simp add: gaps_at_def)
  then show "gaps_at h' g = identify_gaps (view self h)"
    using f by (simp add: h' identify_gaps_fold)
qed

subsection \<open>The set of controls on the heap\<close>

lemma fold_add_controls_h:
  "(\<forall>a. a \<noteq> c \<longrightarrow>
      cells (fold (\<lambda>gp h'. store_obj c (OSet (add_controls gp (set_at h' c))) h') gs h) a = cells h a) \<and>
   next_free (fold (\<lambda>gp h'. store_obj c (OSet (add_controls gp (set_at h' c))) h') gs h) = next_free h \<and>
   (gs \<noteq> [] \<or> cells h c = Some (OSet (set_at h c)) \<longrightarrow>
      cells (fold (\<lambda>gp h'. store_obj c (OSet (add_controls gp (set_at h' c))) h') gs h) c =
        Some (OSet (fold add_controls gs (set_at h c))))"
proof (induction gs arbitrary: h)
  case Nil
  show ?case by simp
next
  case (Cons gp gs)
  let ?h1 = "store_obj c (OSet (add_controls gp (set_at h c))) h"
  have s1: "set_at ?h1 c = add_controls gp (set_at h c)"
    by (simp add: set_at_def store_obj_frame)
  have c1: "cells ?h1 c = Some (OSet (set_at ?h1 c))"
    by (simp add: s1 store_obj_frame)
  show ?case
    using Cons.IH[of ?h1] c1 by (simp add: s1 store_obj_frame)
qed

lemma sort_valid_iter:
  assumes "valid_iter iter" and "finite S"
  shows "sort (iter S) = sorted_list_of_set S"
proof -
  have "set (iter S) = S" "distinct (iter S)"
    using assms by (simp_all add: valid_iter_def)
  then show ?thesis
    by (metis distinct_remdups_id sorted_list_of_set_sort_remdups)
qed

lemma finite_fold_add_controls: "finite (fold add_controls gs {})"
  by (simp add: fold_add_controls)

lemma nist_control_gaps_h_spec:
  assumes it: "valid_iter iter" and run: "nist_control_gaps_h iter g h = (n, h')" and g: "g < next_free h"
  shows "next_free h \<le> next_free h'"
    and "\<And>a. a < next_free h \<Longrightarrow> cells h' a = cells h a"
    and "strings_at h' n = nist_control_gaps (gaps_at h g)"
proof -
  obtain c h1 where al: "alloc (OSet {}) h = (c, h1)"
    by (cases "alloc (OSet {}) h") auto
  note a = alloc_frame[OF al]
  let ?h2 = "fold (\<lambda>gp h'. store_obj c (OSet (add_controls gp (set_at h' c))) h') (gaps_at h1 g) h1"
  have al2: "alloc (OList (sort (iter (set_at ?h2 c)))) ?h2 = (n, h')"
    using run al by (simp add: nist_control_gaps_h_def Let_def)
  note b = alloc_frame[OF al2]
  have gd: "gaps_at h1 g = gaps_at h g"
    using a(4)[of g] g by (simp add: gaps_at_def)
  have s1: "set_at h1 c = {}" "cells h1 c = Some (OSet (set_at h1 c))"
    using a(3) by (simp_all add: set_at_def)
  note f = fold_add_controls_h[of c "gaps_at h1 g" h1]
  have c2: "cells ?h2 c = Some (OSet (fold add_controls (gaps_at h g) {}))"
    using f s1 gd by simp
  then have s2: "set_at ?h2 c = fold add_controls (gaps_at h g) {}"
    by (simp add: set_at_def)
  have n2: "next_free ?h2 = Suc (next_free h)"
    using f a(2) by simp
  show "next_free h \<le> next_free h'"
    using b(2) n2 by simp
  show "cells h' x = cells h x" if "x < next_free h" for x
  proof -
    have "x \<noteq> c" "x \<noteq> next_free ?h2" using that a(1) n2 by simp_all
    then have "cells h' x = cells ?h2 x" "cells ?h2 x = cells h1 x"
      using b(4)[of x] f by simp_all
    moreover have "cells h1 x = cells h x"
      using a(4)[of x] that by simp
    ultimately show ?thesis by simp
  qed
  have "strings_at h' n = sort (iter (set_at ?h2 c))"
    using b(3) by (simp add: strings_at_def)
  also have "\<dots> = sorted_list_of_set (fold add_controls (gaps_at h g) {})"
    unfolding s2 using it finite_fold_add_controls by (rule sort_valid_iter)
  finally show "strings_at h' n = nist_control_gaps (gaps_at h g)"
    by (simp add: nist_control_gaps_def)
qed

subsection \<open>\<open>calculate\<close> on the heap\<close>

lemma enclave_recommended_Inr:
  "cui_in_scope v = Inr cui \<Longrightarrow> \<exists>b. enclave_recommended v = Inr b"
  by (simp add: enclave_recommended_def)

lemma calculate_h_spec:
  assumes wf: "wf_heap h self" and it: "valid_iter iter"
  shows "next_free h \<le> next_free (snd (calculate_h iter self h))"
    and "\<And>a. a < next_free h \<Longrightarrow> cells (snd (calculate_h iter self h)) a = cells h a"
    and "run_result (calculate_h iter self h) = fst (calculate (view self h))"
    and "\<And>res. fst (calculate_h iter self h) = Inr res \<Longrightarrow>
           next_free (snd (calculate_h iter self h)) = next_free h + 4"
proof -
  let ?v = "view self h"
  have "next_free h \<le> next_free (snd (calculate_h iter self h)) \<and>
        (\<forall>a < next_free h. cells (snd (calculate_h iter self h)) a = cells h a) \<and>
        run_result (calculate_h iter self h) = fst (calculate ?v) \<and>
        (\<forall>res. fst (calculate_h iter self h) = Inr res \<longrightarrow>
           next_free (snd (calculate_h iter self h)) = next_free h + 4)"
  proof (cases "cui_in_scope ?v")
    case (Inl e)
    then have "calculate_h iter self h = (Inl e, h)"
      by (simp add: calculate_h_def)
    then show ?thesis
      using Inl by (simp add: run_result_def calculate_Inl(1))
  next
    case cui: (Inr c)
    obtain g h1 where ig: "identify_gaps_h self h = (g, h1)"
      by (cases "identify_gaps_h self h") auto
    note i = identify_gaps_h_spec[OF wf ig]
    have v1: "view self h1 = ?v"
      using wf i(3) by (rule view_agree)
    obtain en where en: "enclave_recommended ?v = Inr en"
      using enclave_recommended_Inr[OF cui] by blast
    show ?thesis
    proof (cases "estimate_systems_in_scope ?v")
      case (Inl e)
      then have "calculate_h iter self h = (Inl e, h1)"
        by (simp add: calculate_h_def Let_def cui ig v1 en)
      then show ?thesis
        using i cui Inl by (simp add: run_result_def calculate_Inl(2))
    next
      case est: (Inr s)
      let ?hi = "filter (\<lambda>gp. priority gp = ''HIGH'') (gaps_at h1 g)"
      obtain hp h2 where al: "alloc (OGaps ?hi) h1 = (hp, h2)"
        by (cases "alloc (OGaps ?hi) h1") auto
      note a = alloc_frame[OF al]
      obtain n h3 where nc: "nist_control_gaps_h iter g h2 = (n, h3)"
        by (cases "nist_control_gaps_h iter g h2") auto
      have g2: "g < next_free h2" using i(1,2) a(2) by simp
      note k = nist_control_gaps_h_spec[OF it nc g2]
      have c2: "cells h2 g = cells h1 g"
        using a(4)[of g] i(1,2) by simp
      have gaps2: "gaps_at h2 g = gaps_at h1 g"
        by (simp add: gaps_at_def c2)
      have c3g: "cells h3 g = cells h2 g"
        using k(2)[OF g2] .
      have gaps3: "gaps_at h3 g = identify_gaps ?v"
        using i(4) by (simp add: gaps_at_def c3g c2)
      have hp2: "hp < next_free h2" using a(1,2) by simp
      have hi3: "gaps_at h3 hp = ?hi"
        using k(2)[OF hp2] a(3) by (simp add: gaps_at_def)
      have agree3: "cells h3 x = cells h x" if "x < next_free h" for x
      proof -
        have "x < next_free h2" "x \<noteq> next_free h1" using that i(2) a(2) by simp_all
        then have "cells h3 x = cells h2 x" "cells h2 x = cells h1 x"
          using k(2)[of x] a(4)[of x] by simp_all
        then show ?thesis using i(3)[OF that] by simp
      qed
      have v3: "view self h3 = ?v"
        using wf agree3 by (rule view_agree)
      have res: "calculate_h iter self h =
        (Inr \<lparr> ref_cui_in_scope = c,
               ref_fci_in_scope = fci_in_scope ?v,
               ref_cmmc_level_required = cmmc_level c (fci_in_scope ?v),
               ref_enclave_recommended = en,
               ref_systems_in_scope = s,
               ref_compliance_gaps = g,
               ref_gap_count = length (gaps_at h1 g),
               ref_high_priority_gaps = hp,
               ref_nist_control_gaps = n,
               ref_scope_reduction_possible = scope_reduction_possible ?v \<rparr>, h3)"
        by (simp add: calculate_h_def Let_def cui ig v1 en est al nc v3)
      have nf3: "next_free h3 = next_free h + 4"
      proof -
        obtain c' h2a where al': "alloc (OSet {}) h2 = (c', h2a)"
          by (cases "alloc (OSet {}) h2") auto
        let ?h2b = "fold (\<lambda>gp h'. store_obj c' (OSet (add_controls gp (set_at h' c'))) h')
                      (gaps_at h2a g) h2a"
        have "alloc (OList (sort (iter (set_at ?h2b c')))) ?h2b = (n, h3)"
          using nc al' by (simp add: nist_control_gaps_h_def Let_def)
        then have "next_free h3 = Suc (next_free ?h2b)"
          by (rule alloc_frame(2))
        moreover have "next_free ?h2b = next_free h2a"
          using fold_add_controls_h[of c' "gaps_at h2a g" h2a] by simp
        moreover have "next_free h2a = Suc (next_free h2)"
          using al' by (rule alloc_frame(2))
        ultimately show ?thesis
          using a(2) i(2) by simp
      qed
      have en': "en = (c \<and> (dict_get (flat ?v) ''bd_03'' = PBool False \<or> dict_get (flat ?v) ''bd_03'' = PNone) \<and>
               (dict_get (flat ?v) ''bd_01'' = PBool False \<or> dict_get (flat ?v) ''bd_04'' \<noteq> PBool False))"
        using en cui by (simp add: enclave_recommended_def)
      have rr: "run_result (calculate_h iter self h) = fst (calculate ?v)"
        unfolding res calculate_Inr[OF cui est]
        using en' by (simp add: run_result_def read_result_def gaps3 hi3 k(3) gaps2 i(4))
      show ?thesis
        using rr agree3 nf3 by (simp add: res)
    qed
  qed
  then show "next_free h \<le> next_free (snd (calculate_h iter self h))"
    and "\<And>a. a < next_free h \<Longrightarrow> cells (snd (calculate_h iter self h)) a = cells h a"
    and "run_result (calculate_h iter self h) = fst (calculate (view self h))"
    and "\<And>res. fst (calculate_h iter self h) = Inr res \<Longrightarrow>
           next_free (snd (calculate_h iter self h)) = next_free h + 4"
    by blast+
qed

lemma valid_iter_up: "valid_iter iter_up"
  by (simp add: valid_iter_def iter_up_def)

lemma valid_iter_down: "valid_iter iter_down"
  by (simp add: valid_iter_def iter_down_def)

section \<open>The primary classification flag\<close>

text \<open>
  C1. The claim: the CUI-in-scope flag is true iff \<open>df_01\<close> is true and (\<open>df_02\<close> is true or
  the categories of \<open>df_03\<close> are non-empty and not only the unsure choice); with \<open>df_01\<close>
  true, \<open>df_02\<close> false and only the unsure choice selected the flag is false and the level
  is the baseline one. The code tests whether the string \<open>I am not sure\<close> is an element of
  the list of selected labels, and the label of the unsure choice is the longer
  \<open>I am not sure \<emdash> need help identifying\<close>, so the test never finds it: in
  scenario C the code returns the flag true and Level 2.
\<close>

theorem scenario_C_is_level_2:
  "CUI_CATEGORIES ! 10 = ''I am not sure '' @ emdash @ '' need help identifying'' \<and>
   flat scenario_C ''df_01'' = Some (PBool True) \<and>
   flat scenario_C ''df_02'' = Some (PBool False) \<and>
   flat scenario_C ''df_03'' = Some (PList [''I am not sure '' @ emdash @ '' need help identifying'']) \<and>
   cui_in_scope scenario_C = Inr True \<and>
   (\<exists>res. fst (calculate scenario_C) = Inr res \<and> res_cui_in_scope res \<and>
          res_cmmc_level_required res = ''Level 2'')"
proof -
  have fl: "flat scenario_C =
      [''df_01'' \<mapsto> PBool True, ''df_02'' \<mapsto> PBool False, ''df_03'' \<mapsto> PList [CUI_CATEGORIES ! 10]]"
    by (simp only: scenario_C_def flat_init_one)
  have l: "CUI_CATEGORIES ! 10 = ''I am not sure '' @ emdash @ '' need help identifying''"
    by (simp add: CUI_CATEGORIES_def)
  have a: "cui_in_scope scenario_C = Inr True"
    by (simp add: fl CUI_CATEGORIES_def cui_in_scope_def dict_defs)
  have b: "estimate_systems_in_scope scenario_C = Inr ''10''"
    by (simp add: fl estimate_systems_in_scope_def dict_defs total_map_get_def total_map_def str_defs)
  have c: "\<exists>res. fst (calculate scenario_C) = Inr res \<and> res_cui_in_scope res \<and>
                res_cmmc_level_required res = ''Level 2''"
    by (simp add: calculate_Inr[OF a b] a cmmc_level_def)
  have d: "flat scenario_C ''df_01'' = Some (PBool True)"
          "flat scenario_C ''df_02'' = Some (PBool False)"
          "flat scenario_C ''df_03'' = Some (PList [''I am not sure '' @ emdash @ '' need help identifying''])"
    by (simp_all add: fl CUI_CATEGORIES_def)
  show ?thesis
    by (intro conjI l a c d)
qed

section \<open>Missing and malformed answers\<close>

text \<open>
  On the empty store the scorer returns a complete result: every flag false, the sentinel
  as level, no gap. A rule whose answer is missing adds no gap (\<open>gaps_missing\<close> above).
\<close>

lemma calculate_on_empty_store:
  "fst (calculate scenario_A) =
     Inr \<lparr> res_cui_in_scope = False,
           res_fci_in_scope = False,
           res_cmmc_level_required = ''Not Required (verify contract requirements)'',
           res_enclave_recommended = False,
           res_systems_in_scope = ''10'',
           res_compliance_gaps = [],
           res_gap_count = 0,
           res_high_priority_gaps = [],
           res_nist_control_gaps = [],
           res_scope_reduction_possible = False \<rparr>"
proof -
  have fl: "flat scenario_A = Map.empty"
    by (simp only: scenario_A_def flat_init_Nil)
  have a: "cui_in_scope scenario_A = Inr False"
    by (simp add: fl cui_in_scope_def dict_defs)
  have b: "estimate_systems_in_scope scenario_A = Inr ''10''"
    by (simp add: fl estimate_systems_in_scope_def dict_defs total_map_get_def total_map_def str_defs)
  have g: "identify_gaps scenario_A = []"
    by (simp add: identify_gaps_def fl gaps_missing)
  have n: "nist_control_gaps [] = []"
    by (simp add: nist_control_gaps_code)
  show ?thesis
    by (simp add: calculate_Inr[OF a b] g n fci_in_scope_def scope_reduction_possible_def
          cmmc_level_def fl dict_defs)
qed

text \<open>
  C3. The claim: the scorer is total, a missing or malformed answer never raises and counts
  as the non-trigger case of its rule, and the empty store gives all flags false, the
  sentinel and no gap. The code does so for missing answers and guards most answers of
  the wrong type (\<open>str(...)\<close> around every choice answer, \<open>cui_cats or []\<close>, the truth
  tests in front of the patterns of \<open>df_08a\<close> and \<open>bd_06a\<close>), but it misses two: a
  boolean stored for \<open>df_03\<close> passes \<open>bool(cui_cats)\<close> and reaches \<open>in\<close>, which raises
  \<open>TypeError\<close>; and \<open>None\<close> stored for \<open>df_06\<close> becomes the string \<open>None\<close>, which contains
  \<open>No\<close>, so the encryption-at-rest rule fires, where the same \<open>None\<close> stored for \<open>df_08a\<close>,
  behind \<open>if sub and\<close>, fires nothing.
\<close>

theorem malformed_answer_raises_or_triggers:
  "flat malformed_df_03 ''df_03'' = Some (PBool True) \<and>
   fst (calculate malformed_df_03) = Inl TypeError \<and>
   flat malformed_df_06 ''df_06'' = Some PNone \<and>
   map title (identify_gaps malformed_df_06) = [''CUI Not Encrypted at Rest''] \<and>
   flat malformed_df_08a ''df_08a'' = Some PNone \<and>
   identify_gaps malformed_df_08a = []"
proof -
  have "cui_in_scope malformed_df_03 = Inl TypeError"
    by (simp add: malformed_df_03_def flat_init_one cui_in_scope_def dict_defs)
  then have 1: "fst (calculate malformed_df_03) = Inl TypeError"
    by (simp add: calculate_Inl)
  have 2: "map title (identify_gaps malformed_df_06) = [''CUI Not Encrypted at Rest'']"
    by (simp add: malformed_df_06_def flat_init_one identify_gaps_def gaps_rule_defs gap_def
          dict_defs lower_def)
  have 3: "identify_gaps malformed_df_08a = []"
    by (simp add: malformed_df_08a_def flat_init_one identify_gaps_def gaps_rule_defs gap_def
          dict_defs lower_def)
  have 4: "flat malformed_df_03 ''df_03'' = Some (PBool True)"
          "flat malformed_df_06 ''df_06'' = Some PNone"
          "flat malformed_df_08a ''df_08a'' = Some PNone"
    by (simp_all add: malformed_df_03_def malformed_df_06_def malformed_df_08a_def flat_init_one)
  show ?thesis
    by (intro conjI 1 2 3 4)
qed

section \<open>The level by priority\<close>

text \<open>
  C4. The level is Level 2 when the CUI flag is true, whatever the FCI flag; otherwise
  Level 1 when the FCI flag is true; otherwise the sentinel. On every scorable store
  \<open>calculate\<close> returns a result whose level is derived so from its two flags. With \<open>df_01\<close>
  and \<open>df_02\<close> true and nothing else answered, the level is Level 2 and the FCI flag is true
  as well.
\<close>

theorem cmmc_level_strict_priority:
  "cmmc_level True fci = ''Level 2'' \<and>
   cmmc_level False True = ''Level 1'' \<and>
   cmmc_level False False = ''Not Required (verify contract requirements)'' \<and>
   (scorable self \<longrightarrow>
      (\<exists>res. fst (calculate self) = Inr res \<and>
             cui_in_scope self = Inr (res_cui_in_scope res) \<and>
             res_fci_in_scope res = fci_in_scope self \<and>
             res_cmmc_level_required res =
               (if res_cui_in_scope res then ''Level 2''
                else if res_fci_in_scope res then ''Level 1''
                else ''Not Required (verify contract requirements)''))) \<and>
   (\<exists>res. fst (calculate scenario_B) = Inr res \<and> res_cui_in_scope res \<and> res_fci_in_scope res \<and>
          res_cmmc_level_required res = ''Level 2'')"
proof -
  have general: "\<exists>res. fst (calculate s) = Inr res \<and>
             cui_in_scope s = Inr (res_cui_in_scope res) \<and>
             res_fci_in_scope res = fci_in_scope s \<and>
             res_cmmc_level_required res =
               (if res_cui_in_scope res then ''Level 2''
                else if res_fci_in_scope res then ''Level 1''
                else ''Not Required (verify contract requirements)'')" if "scorable s" for s
  proof -
    have "\<exists>b. cui_in_scope s = Inr b"
      using that by (simp only: scorable_def cui_in_scope_returns)
    moreover have "\<exists>e. estimate_systems_in_scope s = Inr e"
      using that by (simp only: scorable_def estimate_returns)
    ultimately obtain b e where be: "cui_in_scope s = Inr b" "estimate_systems_in_scope s = Inr e"
      by blast
    show ?thesis
      by (simp add: calculate_Inr[OF be] be cmmc_level_def)
  qed
  have fl: "flat scenario_B = [''df_01'' \<mapsto> PBool True, ''df_02'' \<mapsto> PBool True]"
    by (simp only: scenario_B_def flat_init_one)
  have a: "cui_in_scope scenario_B = Inr True"
    by (simp add: fl cui_in_scope_def dict_defs)
  have b: "estimate_systems_in_scope scenario_B = Inr ''10''"
    by (simp add: fl estimate_systems_in_scope_def dict_defs total_map_get_def total_map_def str_defs)
  have B: "\<exists>res. fst (calculate scenario_B) = Inr res \<and> res_cui_in_scope res \<and>
                res_fci_in_scope res \<and> res_cmmc_level_required res = ''Level 2''"
    by (simp add: calculate_Inr[OF a b] cmmc_level_def fci_in_scope_def fl dict_defs)
  show ?thesis
    using general[of self] B by (simp add: cmmc_level_def)
qed

theorem cmmc_level_strict_priority_witness:
  "scorable scenario_C \<and>
   (\<exists>res. fst (calculate scenario_C) = Inr res \<and>
          res_cmmc_level_required res =
            (if res_cui_in_scope res then ''Level 2''
             else if res_fci_in_scope res then ''Level 1''
             else ''Not Required (verify contract requirements)''))"
proof -
  have fl: "flat scenario_C =
      [''df_01'' \<mapsto> PBool True, ''df_02'' \<mapsto> PBool False, ''df_03'' \<mapsto> PList [CUI_CATEGORIES ! 10]]"
    by (simp only: scenario_C_def flat_init_one)
  have s: "scorable scenario_C"
    by (simp add: scorable_def fl)
  show ?thesis
    using cmmc_level_strict_priority[of True scenario_C] s by blast
qed

section \<open>The estimate of the systems in scope\<close>



section \<open>Monotonicity of the gaps\<close>

text \<open>
  C7. Adding an answer for a question id that has no entry yet removes no gap: the gaps
  of the store are a subsequence of the gaps of the extended store, so every record is
  still there, with the same fields and in the same order. This holds for every new
  answer, whether it triggers a rule or not.
\<close>

theorem identify_gaps_monotone:
  assumes "flat self k = None"
  shows "subseq (identify_gaps self) (identify_gaps (self\<lparr>flat := (flat self)(k \<mapsto> v)\<rparr>)) \<and>
         set (identify_gaps self) \<subseteq> set (identify_gaps (self\<lparr>flat := (flat self)(k \<mapsto> v)\<rparr>))"
proof -
  let ?s' = "self\<lparr>flat := (flat self)(k \<mapsto> v)\<rparr>"
  have mfa: "gaps_mfa self [] = [] \<or> gaps_mfa ?s' [] = gaps_mfa self []"
    using assms by (cases "k = ''ac_02''") (auto intro: gaps_missing gaps_frame)
  have remote: "gaps_remote_access self [] = [] \<or> gaps_remote_access ?s' [] = gaps_remote_access self []"
    using assms by (cases "k = ''ac_05''") (auto intro: gaps_missing gaps_frame)
  have rest: "gaps_encryption_at_rest self [] = [] \<or>
              gaps_encryption_at_rest ?s' [] = gaps_encryption_at_rest self []"
    using assms by (cases "k = ''df_06''") (auto intro: gaps_missing gaps_frame)
  have transit: "gaps_encryption_in_transit self [] = [] \<or>
                 gaps_encryption_in_transit ?s' [] = gaps_encryption_in_transit self []"
    using assms by (cases "k = ''df_07''") (auto intro: gaps_missing gaps_frame)
  have net: "gaps_network_separation self [] = [] \<or>
             gaps_network_separation ?s' [] = gaps_network_separation self []"
    using assms by (cases "k = ''bd_02''") (auto intro: gaps_missing gaps_frame)
  have shared: "gaps_shared_services self [] = [] \<or>
                gaps_shared_services ?s' [] = gaps_shared_services self []"
  proof (cases "k = ''bd_06'' \<or> k = ''bd_06a''")
    case True
    then have "flat self ''bd_06'' = None \<or> flat self ''bd_06a'' = None"
      using assms by auto
    then show ?thesis by (auto intro: gaps_missing)
  next
    case False
    then show ?thesis by (auto intro: gaps_frame)
  qed
  have ssp: "gaps_ssp_missing self [] = [] \<or> gaps_ssp_missing ?s' [] = gaps_ssp_missing self []"
    using assms by (cases "k = ''bd_07''") (auto intro: gaps_missing gaps_frame)
  have sprs: "gaps_sprs_not_submitted self [] = [] \<or>
              gaps_sprs_not_submitted ?s' [] = gaps_sprs_not_submitted self []"
    using assms by (cases "k = ''bd_08''") (auto intro: gaps_missing gaps_frame)
  have logging: "gaps_logging self [] = [] \<or> gaps_logging ?s' [] = gaps_logging self []"
    using assms by (cases "k = ''ac_07''") (auto intro: gaps_missing gaps_frame)
  have priv: "gaps_privileged self [] = [] \<or> gaps_privileged ?s' [] = gaps_privileged self []"
    using assms by (cases "k = ''ac_03''") (auto intro: gaps_missing gaps_frame)
  have usb: "gaps_usb_control self [] = [] \<or> gaps_usb_control ?s' [] = gaps_usb_control self []"
    using assms by (cases "k = ''ac_08''") (auto intro: gaps_missing gaps_frame)
  have byod: "gaps_byod self [] = [] \<or> gaps_byod ?s' [] = gaps_byod self []"
    using assms by (cases "k = ''si_04''") (auto intro: gaps_missing gaps_frame)
  have training: "gaps_awareness_training self [] = [] \<or>
                  gaps_awareness_training ?s' [] = gaps_awareness_training self []"
    using assms by (cases "k = ''ac_09''") (auto intro: gaps_missing gaps_frame)
  have sub: "gaps_subcontractors self [] = [] \<or>
             gaps_subcontractors ?s' [] = gaps_subcontractors self []"
    using assms by (cases "k = ''df_08a''") (auto intro: gaps_missing gaps_frame)
  have seq: "subseq (identify_gaps self) (identify_gaps ?s')"
    unfolding identify_gaps_def Let_def
    by (intro rule_mono[of gaps_subcontractors, OF gaps_append(14) sub]
          rule_mono[of gaps_awareness_training, OF gaps_append(13) training]
          rule_mono[of gaps_byod, OF gaps_append(12) byod]
          rule_mono[of gaps_usb_control, OF gaps_append(11) usb]
          rule_mono[of gaps_privileged, OF gaps_append(10) priv]
          rule_mono[of gaps_logging, OF gaps_append(9) logging]
          rule_mono[of gaps_sprs_not_submitted, OF gaps_append(8) sprs]
          rule_mono[of gaps_ssp_missing, OF gaps_append(7) ssp]
          rule_mono[of gaps_shared_services, OF gaps_append(6) shared]
          rule_mono[of gaps_network_separation, OF gaps_append(5) net]
          rule_mono[of gaps_encryption_in_transit, OF gaps_append(4) transit]
          rule_mono[of gaps_encryption_at_rest, OF gaps_append(3) rest]
          rule_mono[of gaps_remote_access, OF gaps_append(2) remote]
          rule_mono[of gaps_mfa, OF gaps_append(1) mfa]) simp
  then have "set (identify_gaps self) \<subseteq> set (identify_gaps ?s')"
    by (rule subseq_set_mono)
  with seq show ?thesis by (rule conjI)
qed

theorem identify_gaps_monotone_witness:
  "flat weak_access ''si_04'' = None \<and>
   map nist_control (identify_gaps weak_access) = [''IA.3.083'', ''AC.1.001 / IA.3.083''] \<and>
   map nist_control (identify_gaps (weak_access\<lparr>flat := (flat weak_access)(''si_04'' \<mapsto> PBool True)\<rparr>)) =
     [''IA.3.083'', ''AC.1.001 / IA.3.083'', ''AC.1.001 / MP.2.119''] \<and>
   subseq (identify_gaps weak_access)
     (identify_gaps (weak_access\<lparr>flat := (flat weak_access)(''si_04'' \<mapsto> PBool True)\<rparr>))"
proof -
  have fl: "flat weak_access = [''ac_02'' \<mapsto> PStr ''Partially implemented'',
                                ''ac_05'' \<mapsto> PStr (''Yes '' @ emdash @ '' VPN but no MFA'')]"
    by (simp only: weak_access_def flat_init_one)
  have 1: "flat weak_access ''si_04'' = None"
    by (simp add: fl)
  have 2: "map nist_control (identify_gaps weak_access) = [''IA.3.083'', ''AC.1.001 / IA.3.083'']"
    by (simp add: fl identify_gaps_def gaps_rule_defs gap_def dict_defs lower_def)
  have 3: "map nist_control
             (identify_gaps (weak_access\<lparr>flat := (flat weak_access)(''si_04'' \<mapsto> PBool True)\<rparr>)) =
           [''IA.3.083'', ''AC.1.001 / IA.3.083'', ''AC.1.001 / MP.2.119'']"
    by (simp add: fl identify_gaps_def gaps_rule_defs gap_def dict_defs lower_def)
  show ?thesis
    using identify_gaps_monotone[OF 1, of "PBool True"] 1 2 3 by simp
qed

section \<open>Determinism of the scoring pass\<close>

text \<open>
  C8. On a heap that holds the scorer's dictionary and the lists it refers to, for every
  order in which the set of controls may be iterated: a run of \<open>calculate\<close> changes no
  object that existed before it (what it appends to and adds to are the list and the set
  it created itself), so the response store reads as before; a second run, started on
  the heap the first one left and iterating the set in another order, returns the same
  result, reference by reference followed: the same flags, level and estimate, the same
  gaps in the same order, the same high-priority gaps, the same sorted controls; and this
  result is the one \<open>calculate\<close> computes on the store as values.
\<close>

theorem calculate_h_deterministic:
  assumes "wf_heap h self" and "valid_iter iter1" and "valid_iter iter2"
  shows "(\<forall>a < next_free h. cells (snd (calculate_h iter1 self h)) a = cells h a) \<and>
         store_of (snd (calculate_h iter1 self h)) (flat_ref self) = store_of h (flat_ref self) \<and>
         run_result (calculate_h iter2 self (snd (calculate_h iter1 self h))) =
           run_result (calculate_h iter1 self h) \<and>
         run_result (calculate_h iter1 self h) = fst (calculate (view self h)) \<and>
         (\<forall>res. fst (calculate_h iter1 self h) = Inr res \<longrightarrow>
            next_free (snd (calculate_h iter1 self h)) = next_free h + 4 \<and>
            gaps_at (snd (calculate_h iter1 self h)) (ref_compliance_gaps res) =
              identify_gaps (view self h))"
proof -
  let ?h1 = "snd (calculate_h iter1 self h)"
  note s1 = calculate_h_spec[OF assms(1,2)]
  have wf1: "wf_heap ?h1 self"
    using assms(1) s1(2) s1(1) by (rule wf_heap_agree)
  have st: "store_of ?h1 (flat_ref self) = store_of h (flat_ref self)"
    using assms(1) s1(2) by (rule store_of_agree)
  then have v1: "view self ?h1 = view self h"
    by (simp add: view_def)
  have "run_result (calculate_h iter2 self ?h1) = fst (calculate (view self ?h1))"
    using wf1 assms(3) by (rule calculate_h_spec(3))
  then have twice: "run_result (calculate_h iter2 self ?h1) = run_result (calculate_h iter1 self h)"
    by (simp add: v1 s1(3))
  have gaps: "gaps_at ?h1 (ref_compliance_gaps res) = identify_gaps (view self h)"
    if "fst (calculate_h iter1 self h) = Inr res" for res
  proof -
    have "Inr (read_result ?h1 res) = fst (calculate (view self h))"
      using s1(3) that by (simp add: run_result_def)
    then obtain cui scope_sys where "cui_in_scope (view self h) = Inr cui"
        "estimate_systems_in_scope (view self h) = Inr scope_sys"
      by (cases "cui_in_scope (view self h)"; cases "estimate_systems_in_scope (view self h)")
         (auto simp: calculate_Inl)
    then have "res_compliance_gaps (read_result ?h1 res) = identify_gaps (view self h)"
      using \<open>Inr (read_result ?h1 res) = fst (calculate (view self h))\<close>
      by (simp add: calculate_Inr)
    then show ?thesis by (simp add: read_result_def)
  qed
  show ?thesis
    using s1(2) st twice s1(3) s1(4) gaps by blast
qed

theorem calculate_h_deterministic_witness:
  "wf_heap example_heap example_scorer \<and> valid_iter iter_up \<and> valid_iter iter_down \<and>
   store_of example_heap (flat_ref example_scorer) =
     [''ac_02'' \<mapsto> PStr ''Partially implemented'', ''df_03'' \<mapsto> PList [CUI_CATEGORIES ! 0]] \<and>
   cells (snd (calculate_h iter_up example_scorer example_heap)) 0 = cells example_heap 0 \<and>
   cells (snd (calculate_h iter_up example_scorer example_heap)) 1 = cells example_heap 1 \<and>
   next_free (snd (calculate_h iter_up example_scorer example_heap)) = 6 \<and>
   run_result (calculate_h iter_down example_scorer
                 (snd (calculate_h iter_up example_scorer example_heap))) =
     run_result (calculate_h iter_up example_scorer example_heap) \<and>
   (\<exists>res. run_result (calculate_h iter_up example_scorer example_heap) = Inr res \<and>
          map title (res_compliance_gaps res) =
            [''Multi-Factor Authentication Not Fully Implemented''] \<and>
          res_nist_control_gaps res = [''IA.3.083''])"
proof -
  have wf: "wf_heap example_heap example_scorer"
    by (simp add: wf_heap_def example_heap_def example_scorer_def)
  have st: "store_of example_heap (flat_ref example_scorer) =
     [''ac_02'' \<mapsto> PStr ''Partially implemented'', ''df_03'' \<mapsto> PList [CUI_CATEGORIES ! 0]]"
    by (rule ext) (simp add: store_of_def example_heap_def example_scorer_def deref_def)
  let ?v = "view example_scorer example_heap"
  have fl: "flat ?v =
     [''ac_02'' \<mapsto> PStr ''Partially implemented'', ''df_03'' \<mapsto> PList [CUI_CATEGORIES ! 0]]"
    by (simp add: view_def st)
  have a: "cui_in_scope ?v = Inr False"
    by (simp add: fl cui_in_scope_def dict_defs CUI_CATEGORIES_def)
  have b: "estimate_systems_in_scope ?v = Inr ''10''"
    by (simp add: fl estimate_systems_in_scope_def dict_defs total_map_get_def total_map_def str_defs)
  have g: "map title (identify_gaps ?v) = [''Multi-Factor Authentication Not Fully Implemented'']"
          "map nist_control (identify_gaps ?v) = [''IA.3.083'']"
    by (simp_all add: fl identify_gaps_def gaps_rule_defs gap_def dict_defs lower_def)
  have "nist_control_gaps (identify_gaps ?v) =
        sort (remdups (concat (map (\<lambda>c. map strip (split CHR ''/'' c))
                                   (map nist_control (identify_gaps ?v)))))"
    by (simp only: nist_control_gaps_code map_map comp_def)
  then have n: "nist_control_gaps (identify_gaps ?v) = [''IA.3.083'']"
    unfolding g by (simp add: strip_def is_space_def)
  note t = calculate_h_deterministic[OF wf valid_iter_up valid_iter_down]
  have pure: "\<exists>res. fst (calculate ?v) = Inr res \<and>
          map title (res_compliance_gaps res) =
            [''Multi-Factor Authentication Not Fully Implemented''] \<and>
          res_nist_control_gaps res = [''IA.3.083'']"
    by (simp add: calculate_Inr[OF a b] g n)
  then have r: "\<exists>res. run_result (calculate_h iter_up example_scorer example_heap) = Inr res \<and>
          map title (res_compliance_gaps res) =
            [''Multi-Factor Authentication Not Fully Implemented''] \<and>
          res_nist_control_gaps res = [''IA.3.083'']"
    using t by simp
  then obtain res' where "fst (calculate_h iter_up example_scorer example_heap) = Inr res'"
    by (cases "fst (calculate_h iter_up example_scorer example_heap)") (auto simp: run_result_def)
  then have nf: "next_free (snd (calculate_h iter_up example_scorer example_heap)) = 6"
    using t by (simp add: example_heap_def)
  have c0: "cells (snd (calculate_h iter_up example_scorer example_heap)) 0 = cells example_heap 0"
           "cells (snd (calculate_h iter_up example_scorer example_heap)) 1 = cells example_heap 1"
    using t by (simp_all add: example_heap_def)
  have tw: "run_result (calculate_h iter_down example_scorer
                 (snd (calculate_h iter_up example_scorer example_heap))) =
     run_result (calculate_h iter_up example_scorer example_heap)"
    using t by blast
  show ?thesis
    by (intro conjI wf valid_iter_up valid_iter_down st c0 nf tw r)
qed

section \<open>The aggregated control identifiers\<close>

text \<open>
  C9. The identifiers returned for a list of gaps are exactly the stripped tokens of the
  gaps' \<open>nist_control\<close> strings split at \<open>/\<close>, each once, in increasing order (the order of
  Python on strings, lexicographic by character). Splitting at \<open>/\<close> cuts the string at
  every \<open>/\<close>: the tokens hold no \<open>/\<close> and joined by \<open>/\<close> they give the string back.
  Stripping removes white space at both ends and nothing else.
\<close>

theorem nist_control_gaps_sorted_tokens:
  "set (nist_control_gaps gaps) = (\<Union>g\<in>set gaps. strip ` set (split CHR ''/'' (nist_control g))) \<and>
   distinct (nist_control_gaps gaps) \<and>
   sorted (nist_control_gaps gaps) \<and>
   join ''/'' (split CHR ''/'' c) = c \<and>
   (\<forall>t\<in>set (split CHR ''/'' c). CHR ''/'' \<notin> set t) \<and>
   (\<exists>a b. t = a @ strip t @ b \<and> (\<forall>x\<in>set a. is_space x) \<and> (\<forall>x\<in>set b. is_space x)) \<and>
   (strip t \<noteq> [] \<longrightarrow> \<not> is_space (hd (strip t)) \<and> \<not> is_space (last (strip t)))"
proof -
  have fin: "finite (fold add_controls gaps {})"
    unfolding fold_add_controls by simp
  have "set (sorted_list_of_set (fold add_controls gaps {})) = fold add_controls gaps {}"
    using fin by (rule set_sorted_list_of_set)
  then have 1: "set (nist_control_gaps gaps) =
                (\<Union>g\<in>set gaps. strip ` set (split CHR ''/'' (nist_control g)))"
    unfolding nist_control_gaps_def fold_add_controls by simp
  have 2: "distinct (nist_control_gaps gaps)" "sorted (nist_control_gaps gaps)"
    by (simp_all add: nist_control_gaps_def)
  have 3: "\<forall>t\<in>set (split CHR ''/'' c). CHR ''/'' \<notin> set t"
    using split_no_sep by blast
  show ?thesis
    using 1 2 3 join_split[of "CHR ''/''" c] strip_decomp[of t] strip_ends[of t] by blast
qed

theorem nist_control_gaps_sorted_tokens_witness:
  "map nist_control (identify_gaps weak_access) = [''IA.3.083'', ''AC.1.001 / IA.3.083''] \<and>
   nist_control_gaps (identify_gaps weak_access) = [''AC.1.001'', ''IA.3.083''] \<and>
   set (nist_control_gaps (identify_gaps weak_access)) =
     (\<Union>g\<in>set (identify_gaps weak_access). strip ` set (split CHR ''/'' (nist_control g))) \<and>
   strip '' IA.3.083'' = ''IA.3.083'' \<and>
   \<not> is_space (hd (strip '' IA.3.083'')) \<and>
   split CHR ''/'' ''AC.1.001 / IA.3.083'' = [''AC.1.001 '', '' IA.3.083''] \<and>
   join ''/'' (split CHR ''/'' ''AC.1.001 / IA.3.083'') = ''AC.1.001 / IA.3.083''"
proof -
  have fl: "flat weak_access = [''ac_02'' \<mapsto> PStr ''Partially implemented'',
                                ''ac_05'' \<mapsto> PStr (''Yes '' @ emdash @ '' VPN but no MFA'')]"
    by (simp only: weak_access_def flat_init_one)
  have 1: "map nist_control (identify_gaps weak_access) = [''IA.3.083'', ''AC.1.001 / IA.3.083'']"
    by (simp add: fl identify_gaps_def gaps_rule_defs gap_def dict_defs lower_def)
  have "nist_control_gaps (identify_gaps weak_access) =
        sort (remdups (concat (map (\<lambda>c. map strip (split CHR ''/'' c))
                                   (map nist_control (identify_gaps weak_access)))))"
    by (simp only: nist_control_gaps_code map_map comp_def)
  then have 2: "nist_control_gaps (identify_gaps weak_access) = [''AC.1.001'', ''IA.3.083'']"
    unfolding 1 by (simp add: strip_def is_space_def)
  have 3: "strip '' IA.3.083'' = ''IA.3.083''"
    by (simp add: strip_def is_space_def)
  have 4: "strip '' IA.3.083'' \<noteq> []"
    unfolding 3 by simp
  have 5: "split CHR ''/'' ''AC.1.001 / IA.3.083'' = [''AC.1.001 '', '' IA.3.083'']"
    by simp
  show ?thesis
    using nist_control_gaps_sorted_tokens[of "identify_gaps weak_access" "''AC.1.001 / IA.3.083''"
            "'' IA.3.083''"] 1 2 3 4 5
    by blast
qed

section \<open>Boolean dependencies\<close>

text \<open>
  C2, counterexample. The claim says that a stored string never normalises to a boolean, so
  that a question depending on it with a boolean expected value is always skipped.
  \<open>_to_bool\<close> normalises a string: to \<open>True\<close> for \<open>y\<close>, \<open>yes\<close>, \<open>true\<close> and \<open>1\<close> in any case,
  to \<open>False\<close> for every other string. With the free text \<open>yes\<close> stored for \<open>bd_08a\<close>, a
  question that expects \<open>True\<close> there is presented; with a choice label stored for \<open>bd_02\<close>,
  a question that expects \<open>False\<close> there is presented.
\<close>

theorem string_answer_presented_counterexample:
  "run [bd_08, bd_08a, ask_if_yes_text] [''y'', ''yes'', ''n''] =
     Inr \<lparr> answers = [''bd_08'' \<mapsto> PBool True, ''bd_08a'' \<mapsto> PStr ''yes'', ''bd_08c'' \<mapsto> PBool False],
           shown = 3,
           stdin = [],
           stdout = [Shown ''bd_08'' 1, Shown ''bd_08a'' 2, Shown ''bd_08c'' 3] \<rparr> \<and>
   run [bd_02, ask_if_not_separated] [''4'', ''y''] =
     Inr \<lparr> answers = [''bd_02'' \<mapsto> PStr (''No '' @ emdash @ '' all systems share the same network''),
                      ''bd_02a'' \<mapsto> PBool True],
           shown = 2,
           stdin = [],
           stdout = [Shown ''bd_02'' 1, Shown ''bd_02a'' 2] \<rparr>"
  by (simp add: engine_defs bd_08_def bd_08a_def bd_02_def ask_if_yes_text_def ask_if_not_separated_def)

text \<open>
  C2, as amended. For a dependency with a boolean expected value: a stored boolean is
  compared as it is; a stored string counts as \<open>True\<close> when its lower-case form is \<open>y\<close>,
  \<open>yes\<close>, \<open>true\<close> or \<open>1\<close> and as \<open>False\<close> otherwise, and the question is presented exactly
  when that value is the expected one; with no answer, \<open>None\<close>, a number or a list the
  question is skipped. A question whose dependency is not met leaves the loop as it was.
\<close>

theorem boolean_dependency_normalization:
  assumes "depends_on q = Some (d, PBool b)"
  shows "(ans d = Some (PBool a) \<longrightarrow> (dependency_met ans q \<longleftrightarrow> a = b)) \<and>
         (ans d = Some (PStr s) \<longrightarrow>
            (dependency_met ans q \<longleftrightarrow> (lower s \<in> {''y'', ''yes'', ''true'', ''1''}) = b)) \<and>
         (ans d = None \<or> ans d = Some PNone \<or> (\<exists>n. ans d = Some (PInt n)) \<or>
          (\<exists>xs. ans d = Some (PList xs)) \<longrightarrow> \<not> dependency_met ans q) \<and>
         (\<not> dependency_met (answers st) q \<longrightarrow> run_loop (q # qs) st = run_loop qs st)"
  using assms
  by (auto simp: dependency_met_def matches_expected_def to_bool_def dict_get_def)

theorem boolean_dependency_normalization_witness:
  "depends_on ask_if_yes_text = Some (''bd_08a'', PBool True) \<and>
   [''bd_08a'' \<mapsto> PStr ''110''] ''bd_08a'' = Some (PStr ''110'') \<and>
   \<not> dependency_met [''bd_08a'' \<mapsto> PStr ''110''] ask_if_yes_text \<and>
   [''bd_08a'' \<mapsto> PStr ''Yes''] ''bd_08a'' = Some (PStr ''Yes'') \<and>
   dependency_met [''bd_08a'' \<mapsto> PStr ''Yes''] ask_if_yes_text"
proof -
  have d: "depends_on ask_if_yes_text = Some (''bd_08a'', PBool True)"
    by (simp add: ask_if_yes_text_def)
  have 1: "\<not> dependency_met [''bd_08a'' \<mapsto> PStr ''110''] ask_if_yes_text"
    using boolean_dependency_normalization[OF d, of "[''bd_08a'' \<mapsto> PStr ''110'']" _ "''110''"]
    by (simp add: lower_def lower_char_def)
  have 2: "dependency_met [''bd_08a'' \<mapsto> PStr ''Yes''] ask_if_yes_text"
    using boolean_dependency_normalization[OF d, of "[''bd_08a'' \<mapsto> PStr ''Yes'']" _ "''Yes''"]
    by (simp add: lower_def lower_char_def)
  show ?thesis
    using d 1 2 by simp
qed

section \<open>Skipped and presented questions\<close>

text \<open>
  C5, counterexample. The claim says that a question with a dependency is presented only
  when the question it depends on has an entry. The loop reads the entry with
  \<open>answers.get\<close>, which gives \<open>None\<close> for a missing entry as well as for a free text left
  blank: after \<open>bd_08\<close> is answered no, \<open>bd_08a\<close> is skipped and has no entry, and the
  question that expects \<open>None\<close> for \<open>bd_08a\<close> is presented.
\<close>

theorem missing_dependency_presented_counterexample:
  "run [bd_08, bd_08a, ask_if_blank] [''n'', ''y''] =
     Inr \<lparr> answers = [''bd_08'' \<mapsto> PBool False, ''bd_08b'' \<mapsto> PBool True],
           shown = 2,
           stdin = [],
           stdout = [Shown ''bd_08'' 1, Shown ''bd_08b'' 2] \<rparr> \<and>
   [''bd_08'' \<mapsto> PBool False, ''bd_08b'' \<mapsto> PBool True] ''bd_08a'' = None \<and>
   depends_on ask_if_blank = Some (''bd_08a'', PNone)"
  by (simp add: engine_defs bd_08_def bd_08a_def ask_if_blank_def)

text \<open>
  C5, as amended. For a catalog with distinct ids and a run that returns: the numbers
  shown are 1, 2, ... without a gap, in catalog order, so a skipped question takes no
  number; the store has an entry exactly for the questions presented, so a skipped
  question has none; a question is presented exactly when its dependency is met by the
  answers of the questions before it; a question without a dependency always is; a
  dependency with an expected value other than \<open>None\<close> is met exactly when the question
  depended on has an entry that matches the expected value; a dependency with the expected
  value \<open>None\<close> is met when the entry is \<open>None\<close> and also when there is no entry.
\<close>

theorem run_presents_iff_dependency_met:
  assumes "distinct (map qid qs)" and "run qs lines = Inr st"
  shows "shown st = length (stdout st) \<and>
         map ev_num (stdout st) = [1 ..< Suc (length (stdout st))] \<and>
         subseq (map ev_id (stdout st)) (map qid qs) \<and>
         dom (answers st) = set (map ev_id (stdout st)) \<and>
         (\<forall>pre q post. qs = pre @ q # post \<longrightarrow>
            (qid q \<in> set (map ev_id (stdout st)) \<longleftrightarrow>
             dependency_met (answers st |` (qid ` set pre)) q)) \<and>
         (\<forall>A q. depends_on q = None \<longrightarrow> dependency_met A q) \<and>
         (\<forall>A q d e. depends_on q = Some (d, e) \<and> e \<noteq> PNone \<longrightarrow>
            (dependency_met A q \<longleftrightarrow> (\<exists>v. A d = Some v \<and> matches_expected v e))) \<and>
         (\<forall>A q d. depends_on q = Some (d, PNone) \<longrightarrow>
            (dependency_met A q \<longleftrightarrow> A d = None \<or> A d = Some PNone))"
proof -
  let ?st0 = "\<lparr> answers = Map.empty, shown = 0, stdin = lines, stdout = [] \<rparr>"
  have "run_loop qs ?st0 = Inr st"
    using assms(2) by (simp only: run_def)
  from run_loop_events[OF this] obtain evs where evs: "stdout st = stdout ?st0 @ evs"
      "shown st = shown ?st0 + length evs"
      "map ev_num evs = [Suc (shown ?st0) ..< Suc (shown ?st0) + length evs]"
      "subseq (map ev_id evs) (map qid qs)"
      "dom (answers st) = dom (answers ?st0) \<union> set (map ev_id evs)" by blast
  have out: "stdout st = evs" using evs(1) by simp
  have 1: "shown st = length (stdout st)" using evs(2) out by simp
  have 2: "map ev_num (stdout st) = [1 ..< Suc (length (stdout st))]"
    using evs(3) out by simp
  have 3: "subseq (map ev_id (stdout st)) (map qid qs)" using evs(4) out by simp
  have 4: "dom (answers st) = set (map ev_id (stdout st))" using evs(5) out by simp
  have 5: "qid q \<in> set (map ev_id (stdout st)) \<longleftrightarrow>
           dependency_met (answers st |` (qid ` set pre)) q" if "qs = pre @ q # post" for pre q post
    using run_presented_iff[of pre q post lines st] assms that unfolding 4[symmetric] by simp
  have 6: "\<forall>A q. depends_on q = None \<longrightarrow> dependency_met A q"
    using dependency_met_entry(1) by blast
  have 7: "\<forall>A q d e. depends_on q = Some (d, e) \<and> e \<noteq> PNone \<longrightarrow>
            (dependency_met A q \<longleftrightarrow> (\<exists>v. A d = Some v \<and> matches_expected v e))"
    using dependency_met_entry(2) by blast
  have 8: "\<forall>A q d. depends_on q = Some (d, PNone) \<longrightarrow>
            (dependency_met A q \<longleftrightarrow> A d = None \<or> A d = Some PNone)"
    using dependency_met_entry(3) by blast
  have all5: "\<forall>pre q post. qs = pre @ q # post \<longrightarrow>
            (qid q \<in> set (map ev_id (stdout st)) \<longleftrightarrow>
             dependency_met (answers st |` (qid ` set pre)) q)"
    using 5 by blast
  show ?thesis
    by (intro conjI 1 2 3 4 all5 6 7 8)
qed

theorem run_presents_iff_dependency_met_witness:
  "distinct (map qid [bd_01, bd_01a, bd_02]) \<and>
   run [bd_01, bd_01a, bd_02] [''y'', ''1''] =
     Inr \<lparr> answers = [''bd_01'' \<mapsto> PBool True, ''bd_02'' \<mapsto> PStr (choices bd_02 ! 0)],
           shown = 2,
           stdin = [],
           stdout = [Shown ''bd_01'' 1, Shown ''bd_02'' 2] \<rparr> \<and>
   \<not> dependency_met
       ([''bd_01'' \<mapsto> PBool True, ''bd_02'' \<mapsto> PStr (choices bd_02 ! 0)] |` (qid ` set [bd_01]))
       bd_01a \<and>
   dependency_met
       ([''bd_01'' \<mapsto> PBool True, ''bd_02'' \<mapsto> PStr (choices bd_02 ! 0)] |` (qid ` set [bd_01, bd_01a]))
       bd_02"
proof -
  define W where "W = \<lparr> answers = [''bd_01'' \<mapsto> PBool True, ''bd_02'' \<mapsto> PStr (choices bd_02 ! 0)],
              shown = 2, stdin = [], stdout = [Shown ''bd_01'' 1, Shown ''bd_02'' 2] \<rparr>"
  have ids: "qid bd_01 = ''bd_01''" "qid bd_01a = ''bd_01a''" "qid bd_02 = ''bd_02''"
    by (simp_all add: bd_01_def bd_01a_def bd_02_def)
  have d: "distinct (map qid [bd_01, bd_01a, bd_02])"
    by (simp add: ids)
  have run: "run [bd_01, bd_01a, bd_02] [''y'', ''1''] = Inr W"
    unfolding W_def by (simp add: engine_defs bd_01_def bd_01a_def bd_02_def)
  have shown_ids: "set (map ev_id (stdout W)) = {''bd_01'', ''bd_02''}"
    by (simp add: W_def)
  have all: "\<forall>pre q post. [bd_01, bd_01a, bd_02] = pre @ q # post \<longrightarrow>
            (qid q \<in> set (map ev_id (stdout W)) \<longleftrightarrow>
             dependency_met (answers W |` (qid ` set pre)) q)"
    using run_presents_iff_dependency_met[OF d run] by (elim conjE)
  have s1: "[bd_01, bd_01a, bd_02] = [bd_01] @ bd_01a # [bd_02]"
    by (simp only: append.simps)
  have s2: "[bd_01, bd_01a, bd_02] = [bd_01, bd_01a] @ bd_02 # []"
    by (simp only: append.simps)
  have "qid bd_01a \<in> set (map ev_id (stdout W)) \<longleftrightarrow>
        dependency_met (answers W |` (qid ` set [bd_01])) bd_01a"
    using all s1 by (elim allE impE) assumption
  then have 1: "\<not> dependency_met (answers W |` (qid ` set [bd_01])) bd_01a"
    unfolding shown_ids ids by simp
  have "qid bd_02 \<in> set (map ev_id (stdout W)) \<longleftrightarrow>
        dependency_met (answers W |` (qid ` set [bd_01, bd_01a])) bd_02"
    using all s2 by (elim allE impE) assumption
  then have 2: "dependency_met (answers W |` (qid ` set [bd_01, bd_01a])) bd_02"
    unfolding shown_ids ids by simp
  have aw: "answers W = [''bd_01'' \<mapsto> PBool True, ''bd_02'' \<mapsto> PStr (choices bd_02 ! 0)]"
    by (simp add: W_def)
  show ?thesis
    using d run[unfolded W_def] 1[unfolded aw] 2[unfolded aw] by (intro conjI)
qed

section \<open>Multi-choice answers\<close>

text \<open>
  C10, counterexample. The claim says that a recorded multi-choice answer is never the
  empty list. For a question without choices (the default of the field \<open>choices\<close>) the
  input \<open>all\<close> returns a copy of the choice list, which is empty.
\<close>

theorem empty_choices_counterexample:
  "collect_answer (df_03\<lparr>choices := []\<rparr>) [''all''] = Inr (PList [], []) \<and>
   run [df_03\<lparr>choices := [], depends_on := None\<rparr>] [''all''] =
     Inr \<lparr> answers = [''df_03'' \<mapsto> PList []], shown = 1, stdin = [],
           stdout = [Shown ''df_03'' 1] \<rparr>"
  by (simp add: engine_defs df_03_def)

text \<open>
  C10, as amended. For a multi-choice question with at least one choice: the value the
  collector returns is a non-empty list of strings of the choice list; the input \<open>all\<close>, in
  any case and with white space around, returns the whole choice list; and what a run
  over a catalog with distinct ids records for the question is such a list.
\<close>

theorem multi_choice_answer_nonempty:
  assumes "qtype q = MULTI_CHOICE" and "choices q \<noteq> []"
  shows "(collect_answer q lines = Inr (v, rest) \<longrightarrow>
            (\<exists>sel. v = PList sel \<and> sel \<noteq> [] \<and> set sel \<subseteq> set (choices q))) \<and>
         (lower (strip line) = ''all'' \<longrightarrow>
            collect_answer q (line # rest) = Inr (PList (choices q), rest)) \<and>
         (distinct (map qid qs) \<and> q \<in> set qs \<and> run qs lines = Inr st \<and>
          answers st (qid q) = Some v \<longrightarrow>
            (\<exists>sel. v = PList sel \<and> sel \<noteq> [] \<and> set sel \<subseteq> set (choices q)))"
proof (intro conjI impI)
  assume "collect_answer q lines = Inr (v, rest)"
  then show "\<exists>sel. v = PList sel \<and> sel \<noteq> [] \<and> set sel \<subseteq> set (choices q)"
    using assms by (intro collect_multi_choice)
next
  assume "lower (strip line) = ''all''"
  then show "collect_answer q (line # rest) = Inr (PList (choices q), rest)"
    using assms(1) by (intro collect_multi_choice_all)
next
  assume a: "distinct (map qid qs) \<and> q \<in> set qs \<and> run qs lines = Inr st \<and>
             answers st (qid q) = Some v"
  then obtain inp rest' where "collect_answer q inp = Inr (v, rest')"
    using run_recorded[of qs q lines st v] by blast
  then show "\<exists>sel. v = PList sel \<and> sel \<noteq> [] \<and> set sel \<subseteq> set (choices q)"
    using assms by (intro collect_multi_choice)
qed

theorem multi_choice_answer_nonempty_witness:
  "qtype df_03 = MULTI_CHOICE \<and> choices df_03 \<noteq> [] \<and>
   collect_answer df_03 [''0'', ''1, 11'', ''2''] =
     Inr (PList [CUI_CATEGORIES ! 0, CUI_CATEGORIES ! 10], [''2'']) \<and>
   (\<exists>sel. PList [CUI_CATEGORIES ! 0, CUI_CATEGORIES ! 10] = PList sel \<and> sel \<noteq> [] \<and>
          set sel \<subseteq> set (choices df_03)) \<and>
   collect_answer df_03 ['' All '', ''2''] = Inr (PList (choices df_03), [''2''])"
proof -
  have 1: "qtype df_03 = MULTI_CHOICE" "choices df_03 \<noteq> []"
    by (simp_all add: df_03_def CUI_CATEGORIES_def)
  have 2: "collect_answer df_03 [''0'', ''1, 11'', ''2''] =
             Inr (PList [CUI_CATEGORIES ! 0, CUI_CATEGORIES ! 10], [''2''])"
    by (simp add: engine_defs df_03_def CUI_CATEGORIES_def)
  have 3: "lower (strip '' All '') = ''all''"
    by (simp add: lower_def lower_char_def strip_def is_space_def)
  show ?thesis
    using multi_choice_answer_nonempty[OF 1, of "[''0'', ''1, 11'', ''2'']"
            "PList [CUI_CATEGORIES ! 0, CUI_CATEGORIES ! 10]" "[''2'']" "'' All ''"] 1 2 3
    by blast
qed

end
